theory Spec2Isabelle
  imports Main "HOL-Library.Multiset"
begin

section \<open>Data model\<close>

text \<open>
  A naive \<^verbatim>\<open>datetime\<close> is a point of the time line with microsecond resolution; it is
  modelled by the number of microseconds since 0001-01-01T00:00:00, so that comparison and
  subtraction are those of the integers. A \<^verbatim>\<open>timedelta\<close> is a number of microseconds;
  \<open>timedelta_hours\<close> and \<open>timedelta_days\<close> give the microseconds of a number of hours
  and of days.
\<close>

type_synonym datetime = int

definition timedelta_hours :: "int \<Rightarrow> int" where
  "timedelta_hours h = h * 3600000000"

definition timedelta_days :: "int \<Rightarrow> int" where
  "timedelta_days n = n * 86400000000"

text \<open>The exceptions the logger can meet.\<close>

datatype error =
  ValueError | TypeError | KeyError | FileNotFoundError | BadZipFile | OSError | OverflowError

text \<open>
  Both types are bounded. The constructor \<^verbatim>\<open>timedelta(...)\<close> raises \<^verbatim>\<open>OverflowError\<close> when
  the duration has more than 999999999 days in either direction, and a \<^verbatim>\<open>datetime\<close> minus a
  \<^verbatim>\<open>timedelta\<close> raises it when the result leaves the years 1 to 9999; the last moment of
  the year 9999 is \<open>datetime_max\<close>. The difference of two moments is always a duration.
\<close>

definition datetime_max :: datetime where
  "datetime_max = 315537897599999999"

definition timedelta :: "int \<Rightarrow> error + int" where
  "timedelta us =
     (if - 86399999913600000000 \<le> us \<and> us < 86400000000000000000 then Inr us
      else Inl OverflowError)"

definition datetime_sub :: "datetime \<Rightarrow> int \<Rightarrow> error + datetime" where
  "datetime_sub t delta =
     (if 0 \<le> t - delta \<and> t - delta \<le> datetime_max then Inr (t - delta)
      else Inl OverflowError)"

text \<open>
  The functions of the Python library the logger calls on text. They are parameters of the
  model: \<open>isoformat\<close> and \<open>fromisoformat\<close> are the methods of \<^verbatim>\<open>datetime\<close>,
  \<open>str_value\<close> is the text the csv writer gives a value, \<open>float_of\<close> is \<^verbatim>\<open>float(s)\<close>,
  \<open>strftime\<close> and \<open>strptime\<close> take the format first, and \<open>row_bytes\<close> is the number
  of bytes the csv writer emits for a row. \<open>None\<close> is the library's \<^verbatim>\<open>ValueError\<close>.
  The type \<open>'v\<close> is the type of a measured value (a Python float).
\<close>

record 'v lib =
  isoformat :: "datetime \<Rightarrow> string"
  fromisoformat :: "string \<Rightarrow> datetime option"
  str_value :: "'v \<Rightarrow> string"
  float_of :: "string \<Rightarrow> 'v option"
  strftime :: "string \<Rightarrow> datetime \<Rightarrow> string"
  strptime :: "string \<Rightarrow> string \<Rightarrow> datetime option"
  row_bytes :: "string list \<Rightarrow> nat"

text \<open>
  A CSV file is modelled by the rows it holds, each row the list of its fields as the csv
  writer was given them (the writer quotes what needs it, and a reader that gets the bytes
  of the file yields these fields again), together with the two times of its \<^verbatim>\<open>stat\<close>
  record.
\<close>

record csv_file =
  rows :: "string list list"
  created :: datetime
  mtime :: datetime

text \<open>
  An entry of the archive directory: a zip archive with its members (name and rows), a
  regular file that is no zip archive, or a directory.
\<close>

datatype node = Zip "(string \<times> string list list) list" | Junk | Folder

text \<open>
  The log directory maps the names of its files to them; the archive directory is the list
  of its entries in the order the operating system enumerates them.
\<close>

record disk =
  files :: "string \<rightharpoonup> csv_file"
  archive :: "(string \<times> node) list"

text \<open>The fields of a \<^verbatim>\<open>Logger\<close> object; \<open>fp_open\<close> tells whether \<^verbatim>\<open>self._fp\<close> is open.\<close>

record logger =
  filename_pattern :: string
  rotate_every :: int
  max_size :: int
  rotate_after :: int
  retention :: int
  current_file :: string
  line_count :: int
  fp_open :: bool

text \<open>An element of the list \<^verbatim>\<open>read_logs\<close> returns.\<close>

record 'v entry =
  e_timestamp :: datetime
  e_sensor_id :: "string option"
  e_value :: 'v
  e_unit :: "string option"

section \<open>Reading\<close>

text \<open>
  \<^verbatim>\<open>csv.DictReader\<close>: the first row gives the field names, empty rows are skipped, and a
  row becomes the dictionary of its fields, \<^verbatim>\<open>None\<close> for a field the row is too short for.
  A later duplicate of a field name overrides an earlier one.
\<close>

fun row_dict :: "string list \<Rightarrow> string list \<Rightarrow> (string \<rightharpoonup> string option)" where
  "row_dict [] vs = Map.empty"
| "row_dict (k # ks) [] = [k \<mapsto> None] ++ row_dict ks []"
| "row_dict (k # ks) (v # vs) = [k \<mapsto> Some v] ++ row_dict ks vs"

definition dict_reader :: "string list list \<Rightarrow> (string \<rightharpoonup> string option) list" where
  "dict_reader rs = (case rs of [] \<Rightarrow> [] | h # ds \<Rightarrow> map (row_dict h) (filter (\<lambda>r. r \<noteq> []) ds))"

definition getitem :: "(string \<rightharpoonup> string option) \<Rightarrow> string \<Rightarrow> error + string option" where
  "getitem d k = (case d k of None \<Rightarrow> Inl KeyError | Some v \<Rightarrow> Inr v)"

text \<open>\<^verbatim>\<open>datetime.fromisoformat(row['timestamp'])\<close>\<close>

definition parse_timestamp :: "'v lib \<Rightarrow> (string \<rightharpoonup> string option) \<Rightarrow> error + datetime" where
  "parse_timestamp L row =
     (case getitem row ''timestamp'' of
        Inl e \<Rightarrow> Inl e
      | Inr None \<Rightarrow> Inl TypeError
      | Inr (Some s) \<Rightarrow> (case fromisoformat L s of None \<Rightarrow> Inl ValueError | Some ts \<Rightarrow> Inr ts))"

text \<open>\<^verbatim>\<open>float(row['value'])\<close>\<close>

definition parse_value :: "'v lib \<Rightarrow> (string \<rightharpoonup> string option) \<Rightarrow> error + 'v" where
  "parse_value L row =
     (case getitem row ''value'' of
        Inl e \<Rightarrow> Inl e
      | Inr None \<Rightarrow> Inl TypeError
      | Inr (Some s) \<Rightarrow> (case float_of L s of None \<Rightarrow> Inl ValueError | Some v \<Rightarrow> Inr v))"

text \<open>The dictionary appended to \<^verbatim>\<open>entries\<close>, its items evaluated in the order written.\<close>

definition make_entry :: "'v lib \<Rightarrow> datetime \<Rightarrow> (string \<rightharpoonup> string option) \<Rightarrow> error + 'v entry" where
  "make_entry L ts row =
     (case getitem row ''sensor_id'' of
        Inl e \<Rightarrow> Inl e
      | Inr s \<Rightarrow>
          (case parse_value L row of
             Inl e \<Rightarrow> Inl e
           | Inr v \<Rightarrow>
               (case getitem row ''unit'' of
                  Inl e \<Rightarrow> Inl e
                | Inr u \<Rightarrow> Inr \<lparr>e_timestamp = ts, e_sensor_id = s, e_value = v, e_unit = u\<rparr>)))"

text \<open>
  The body of the loop over the rows of a reader: \<open>Inr None\<close> when the row does not pass the
  filter, \<open>Inr (Some e)\<close> when \<open>e\<close> is appended. The sensor of the row is looked up only
  when a sensor is asked for and the time is in range.
\<close>

definition read_row ::
  "'v lib \<Rightarrow> datetime \<Rightarrow> datetime \<Rightarrow> string option \<Rightarrow> (string \<rightharpoonup> string option)
     \<Rightarrow> error + 'v entry option" where
  "read_row L start end sensor row =
     (case parse_timestamp L row of
        Inl e \<Rightarrow> Inl e
      | Inr ts \<Rightarrow>
          if start \<le> ts \<and> ts \<le> end then
            (case sensor of
               None \<Rightarrow> map_sum id Some (make_entry L ts row)
             | Some want \<Rightarrow>
                 (case getitem row ''sensor_id'' of
                    Inl e \<Rightarrow> Inl e
                  | Inr got \<Rightarrow>
                      if got = Some want then map_sum id Some (make_entry L ts row)
                      else Inr None))
          else Inr None)"

fun scan_rows ::
  "'v lib \<Rightarrow> datetime \<Rightarrow> datetime \<Rightarrow> string option \<Rightarrow> (string \<rightharpoonup> string option) list
     \<Rightarrow> 'v entry list \<Rightarrow> error + 'v entry list" where
  "scan_rows L start end sensor [] entries = Inr entries"
| "scan_rows L start end sensor (row # rest) entries =
     (case read_row L start end sensor row of
        Inl e \<Rightarrow> Inl e
      | Inr None \<Rightarrow> scan_rows L start end sensor rest entries
      | Inr (Some x) \<Rightarrow> scan_rows L start end sensor rest (entries @ [x]))"

text \<open>The loop over the members of one zip archive (\<^verbatim>\<open>zf.namelist()\<close>).\<close>

fun scan_members ::
  "'v lib \<Rightarrow> datetime \<Rightarrow> datetime \<Rightarrow> string option \<Rightarrow> (string \<times> string list list) list
     \<Rightarrow> 'v entry list \<Rightarrow> error + 'v entry list" where
  "scan_members L start end sensor [] entries = Inr entries"
| "scan_members L start end sensor ((name, rs) # rest) entries =
     (case scan_rows L start end sensor (dict_reader rs) entries of
        Inl e \<Rightarrow> Inl e
      | Inr entries' \<Rightarrow> scan_members L start end sensor rest entries')"

text \<open>
  \<^verbatim>\<open>read_logs\<close> opens the active file with \<^verbatim>\<open>csv_path.open()\<close>, in text mode with the
  default newline handling, where \<^verbatim>\<open>_open_file\<close> has passed \<^verbatim>\<open>newline=''\<close>: every carriage
  return followed by a line feed, and every other carriage return, reaches the csv reader
  as one line feed, inside quoted fields too. The members of an archive are read as bytes
  and keep their fields.
\<close>

fun universal_newlines :: "string \<Rightarrow> string" where
  "universal_newlines [] = []"
| "universal_newlines [c] = [if c = CHR 0x0D then CHR 0x0A else c]"
| "universal_newlines (c # c' # cs) =
     (if c = CHR 0x0D
      then (if c' = CHR 0x0A then CHR 0x0A # universal_newlines cs
            else CHR 0x0A # universal_newlines (c' # cs))
      else c # universal_newlines (c' # cs))"

definition text_mode :: "string list list \<Rightarrow> string list list" where
  "text_mode rs = map (map universal_newlines) rs"

text \<open>\<^verbatim>\<open>glob('*.zip')\<close> keeps the names that end in \<^verbatim>\<open>.zip\<close>.\<close>

definition is_zip_name :: "string \<Rightarrow> bool" where
  "is_zip_name n = (take 4 (rev n) = rev ''.zip'')"

text \<open>
  What the reader finds when it opens a path may differ from what it saw when it listed
  the directory or tested the path: \<open>active_gone\<close> says that the active file is removed
  between \<^verbatim>\<open>exists()\<close> and \<^verbatim>\<open>open()\<close>, and \<open>archives_gone\<close> holds the archives removed
  between the listing by \<^verbatim>\<open>glob\<close> and their opening. \<open>quiet\<close> is the run nothing
  interferes with.
\<close>

record race =
  active_gone :: bool
  archives_gone :: "string set"

definition quiet :: race where
  "quiet = \<lparr>active_gone = False, archives_gone = {}\<rparr>"

text \<open>The loop over the archives; \<^verbatim>\<open>zipfile.ZipFile(z)\<close> raises on what is no zip archive.\<close>

fun scan_archives ::
  "'v lib \<Rightarrow> race \<Rightarrow> datetime \<Rightarrow> datetime \<Rightarrow> string option \<Rightarrow> (string \<times> node) list
     \<Rightarrow> 'v entry list \<Rightarrow> error + 'v entry list" where
  "scan_archives L rc start end sensor [] entries = Inr entries"
| "scan_archives L rc start end sensor ((z, nd) # rest) entries =
     (if z \<in> archives_gone rc then Inl FileNotFoundError
      else
        (case nd of
           Junk \<Rightarrow> Inl BadZipFile
         | Folder \<Rightarrow> Inl OSError
         | Zip members \<Rightarrow>
             (case scan_members L start end sensor members entries of
                Inl e \<Rightarrow> Inl e
              | Inr entries' \<Rightarrow> scan_archives L rc start end sensor rest entries')))"

definition scan_active ::
  "'v lib \<Rightarrow> logger \<Rightarrow> disk \<Rightarrow> race \<Rightarrow> datetime \<Rightarrow> datetime \<Rightarrow> string option
     \<Rightarrow> error + 'v entry list" where
  "scan_active L lg d rc start end sensor =
     (case files d (current_file lg) of
        None \<Rightarrow> Inr []
      | Some f \<Rightarrow>
          if active_gone rc then Inl FileNotFoundError
          else scan_rows L start end sensor (dict_reader (text_mode (rows f))) [])"

definition read_logs ::
  "'v lib \<Rightarrow> logger \<Rightarrow> disk \<Rightarrow> race \<Rightarrow> datetime \<Rightarrow> datetime \<Rightarrow> string option
     \<Rightarrow> error + 'v entry list" where
  "read_logs L lg d rc start end sensor =
     (case scan_active L lg d rc start end sensor of
        Inl e \<Rightarrow> Inl e
      | Inr entries \<Rightarrow>
          (case scan_archives L rc start end sensor
                  (filter (\<lambda>(z, nd). is_zip_name z) (archive d)) entries of
             Inl e \<Rightarrow> Inl e
           | Inr entries' \<Rightarrow> Inr (sort_key e_timestamp entries')))"

section \<open>Writing\<close>

text \<open>
  The configuration file, as \<^verbatim>\<open>json.loads\<close> returns it; the thresholds are whole numbers.
  The log directory and its subdirectory \<^verbatim>\<open>archive\<close> are the two parts of a \<open>disk\<close>.
\<close>

record config =
  cfg_filename_pattern :: string
  cfg_rotate_every_hours :: int
  cfg_max_size_mb :: int
  cfg_rotate_after_lines :: int
  cfg_retention_days :: int

text \<open>The part of a sensor the logger reads: \<^verbatim>\<open>sensor.config\<close>.\<close>

record sensor_config =
  sensor_id :: string
  unit :: string

text \<open>
  How the writing of the zip archive ends: it is written, it cannot be opened for writing,
  or it is opened and \<^verbatim>\<open>zf.write\<close> raises.
\<close>

datatype zip_outcome = ZipWritten | ZipOpenFails | ZipWriteFails

text \<open>
  What one call of \<^verbatim>\<open>update\<close> gets from outside: the value of each \<^verbatim>\<open>datetime.now()\<close> it
  evaluates (\<open>t_rec\<close> for the record, \<open>t_age\<close> in \<^verbatim>\<open>_needs_rotation\<close>, \<open>t_seal\<close> and
  \<open>t_name\<close> in \<^verbatim>\<open>_rotate\<close>, \<open>t_sweep\<close> in \<^verbatim>\<open>_cleanup_archives\<close>), the time the file
  system stamps on the flushed row (\<open>t_write\<close>) and on a file it creates (\<open>t_create\<close>), and
  how the writing of the archive ends.
\<close>

record env =
  t_rec :: datetime
  t_write :: datetime
  t_age :: datetime
  t_seal :: datetime
  t_name :: datetime
  t_create :: datetime
  t_sweep :: datetime
  zip_io :: zip_outcome

datatype outcome = Done | Raised error

definition fieldnames :: "string list" where
  "fieldnames = [''timestamp'', ''sensor_id'', ''value'', ''unit'']"

definition st_size :: "'v lib \<Rightarrow> csv_file \<Rightarrow> int" where
  "st_size L f = int (sum_list (map (row_bytes L) (rows f)))"

text \<open>
  \<^verbatim>\<open>_open_file\<close>: the file is opened for appending, which creates it when it is not there;
  only then the header is written.
\<close>

definition open_file :: "logger \<Rightarrow> disk \<Rightarrow> datetime \<Rightarrow> logger \<times> disk" where
  "open_file lg d t =
     (let is_new = (files d (current_file lg) = None);
          d' = (if is_new
                then d\<lparr>files := (files d)(current_file lg \<mapsto>
                        \<lparr>rows = [fieldnames], created = t, mtime = t\<rparr>)\<rparr>
                else d)
      in (lg\<lparr>fp_open := True\<rparr>, d'))"

text \<open>
  \<^verbatim>\<open>__init__\<close>, on the disk it finds; \<open>now\<close> is its \<^verbatim>\<open>datetime.now()\<close> and \<open>t\<close> the time the
  file system stamps on a file it creates. The name the pattern gives is taken to be a
  plain file name. The counter is set after the file is opened.
\<close>

definition init :: "'v lib \<Rightarrow> config \<Rightarrow> disk \<Rightarrow> datetime \<Rightarrow> datetime \<Rightarrow> logger \<times> disk" where
  "init L cfg d now t =
     (let lg = \<lparr>filename_pattern = cfg_filename_pattern cfg,
                rotate_every = cfg_rotate_every_hours cfg,
                max_size = cfg_max_size_mb cfg,
                rotate_after = cfg_rotate_after_lines cfg,
                retention = cfg_retention_days cfg,
                current_file = strftime L (cfg_filename_pattern cfg) now,
                line_count = 0,
                fp_open = False\<rparr>;
          (lg', d') = open_file lg d t
      in (lg'\<lparr>line_count := 0\<rparr>, d'))"

text \<open>
  \<^verbatim>\<open>_needs_rotation\<close>. \<^verbatim>\<open>stat()\<close> raises when the file is not there. The age is taken from
  \<^verbatim>\<open>st_mtime\<close>, the time of the last write. \<^verbatim>\<open>timedelta(hours=...)\<close> is built, and may raise,
  only when the row count is below its threshold.
\<close>

definition needs_rotation :: "'v lib \<Rightarrow> logger \<Rightarrow> disk \<Rightarrow> datetime \<Rightarrow> error + bool" where
  "needs_rotation L lg d now =
     (case files d (current_file lg) of
        None \<Rightarrow> Inl FileNotFoundError
      | Some f \<Rightarrow>
          (let age = now - mtime f in
           if line_count lg \<ge> rotate_after lg then Inr True
           else
             (case timedelta (timedelta_hours (rotate_every lg)) of
                Inl e \<Rightarrow> Inl e
              | Inr every \<Rightarrow>
                  if age \<ge> every then Inr True
                  else if st_size L f \<ge> max_size lg * 1024 * 1024 then Inr True
                  else Inr False)))"

text \<open>
  \<^verbatim>\<open>Path.stem\<close> (the name without its last suffix; a leading or a trailing dot starts no
  suffix) and \<^verbatim>\<open>s.split('.')[-1]\<close>.
\<close>

definition stem :: "string \<Rightarrow> string" where
  "stem name =
     (let ext = takeWhile (\<lambda>c. c \<noteq> CHR ''.'') (rev name) in
      if CHR ''.'' \<in> set name \<and> ext \<noteq> [] \<and> length ext + 1 < length name
      then take (length name - length ext - 1) name
      else name)"

definition last_part :: "string \<Rightarrow> string" where
  "last_part s = rev (takeWhile (\<lambda>c. c \<noteq> CHR ''.'') (rev s))"

definition stamp_format :: string where
  "stamp_format = ''%Y%m%d%H%M%S''"

text \<open>
  The loop of \<^verbatim>\<open>_cleanup_archives\<close> over the entries of the archive directory; it returns
  the entries that stay. An exception of \<^verbatim>\<open>strptime\<close> or of \<^verbatim>\<open>unlink\<close> (on a directory) is
  caught and the loop goes on.
\<close>

fun sweep :: "'v lib \<Rightarrow> datetime \<Rightarrow> (string \<times> node) list \<Rightarrow> (string \<times> node) list" where
  "sweep L expire [] = []"
| "sweep L expire ((z, nd) # rest) =
     (case strptime L stamp_format (last_part (stem z)) of
        None \<Rightarrow> (z, nd) # sweep L expire rest
      | Some ts \<Rightarrow>
          if ts < expire
          then (case nd of Folder \<Rightarrow> (z, nd) # sweep L expire rest | _ \<Rightarrow> sweep L expire rest)
          else (z, nd) # sweep L expire rest)"

text \<open>
  \<^verbatim>\<open>expire = datetime.now() - timedelta(days=self.retention)\<close> stands before the loop and
  outside its \<^verbatim>\<open>try\<close>: when it raises, \<^verbatim>\<open>_cleanup_archives\<close> raises and no entry is looked
  at.
\<close>

definition expire_time :: "logger \<Rightarrow> datetime \<Rightarrow> error + datetime" where
  "expire_time lg now =
     (case timedelta (timedelta_days (retention lg)) of
        Inl e \<Rightarrow> Inl e
      | Inr delta \<Rightarrow> datetime_sub now delta)"

definition cleanup_archives :: "'v lib \<Rightarrow> logger \<Rightarrow> disk \<Rightarrow> datetime \<Rightarrow> error + disk" where
  "cleanup_archives L lg d now =
     (case expire_time lg now of
        Inl e \<Rightarrow> Inl e
      | Inr expire \<Rightarrow> Inr (d\<lparr>archive := sweep L expire (archive d)\<rparr>))"

text \<open>Writing the entry \<open>z\<close> of a directory: in place when the name is there, else as a new entry.\<close>

fun put_entry :: "string \<Rightarrow> node \<Rightarrow> (string \<times> node) list \<Rightarrow> (string \<times> node) list" where
  "put_entry z nd [] = [(z, nd)]"
| "put_entry z nd ((z', nd') # rest) =
     (if z' = z then (z, nd) # rest else (z', nd') # put_entry z nd rest)"

text \<open>
  \<^verbatim>\<open>_rotate\<close>. The handle is closed first. \<^verbatim>\<open>ZipFile(archive, 'w')\<close> raises when the archive
  cannot be opened for writing (always so on a directory). When \<^verbatim>\<open>zf.write\<close> raises, because
  the write fails or because the active file is not there, the \<^verbatim>\<open>with\<close> block closes the
  archive, which is then a zip archive without members. The active file is unlinked after
  the \<^verbatim>\<open>with\<close> block. \<^verbatim>\<open>_cleanup_archives\<close> comes last: when it raises, the archive is
  written, the old file is gone and the new one is open.
\<close>

definition rotate :: "'v lib \<Rightarrow> env \<Rightarrow> logger \<Rightarrow> disk \<Rightarrow> outcome \<times> logger \<times> disk" where
  "rotate L ev lg d =
     (let lg1 = lg\<lparr>fp_open := False\<rparr>;
          timestamp = strftime L stamp_format (t_seal ev);
          z = current_file lg @ ''.'' @ timestamp @ ''.zip''
      in
        if zip_io ev = ZipOpenFails \<or> map_of (archive d) z = Some Folder
        then (Raised OSError, lg1, d)
        else if zip_io ev = ZipWriteFails
        then (Raised OSError, lg1, d\<lparr>archive := put_entry z (Zip []) (archive d)\<rparr>)
        else
          (case files d (current_file lg) of
             None \<Rightarrow> (Raised FileNotFoundError, lg1, d\<lparr>archive := put_entry z (Zip []) (archive d)\<rparr>)
           | Some f \<Rightarrow>
               (let d1 = d\<lparr>archive := put_entry z (Zip [(current_file lg, rows f)]) (archive d)\<rparr>;
                    d2 = d1\<lparr>files := (files d1)(current_file lg := None)\<rparr>;
                    lg2 = lg1\<lparr>line_count := 0,
                              current_file := strftime L (filename_pattern lg) (t_name ev)\<rparr>;
                    (lg3, d3) = open_file lg2 d2 (t_create ev)
                in (case cleanup_archives L lg3 d3 (t_sweep ev) of
                      Inl e \<Rightarrow> (Raised e, lg3, d3)
                    | Inr d4 \<Rightarrow> (Done, lg3, d4)))))"

text \<open>
  The row is written through the open handle; a row written to a file that was removed
  from the directory is not seen again.
\<close>

definition write_row :: "disk \<Rightarrow> string \<Rightarrow> string list \<Rightarrow> datetime \<Rightarrow> disk" where
  "write_row d name row t =
     (case files d name of
        None \<Rightarrow> d
      | Some f \<Rightarrow> d\<lparr>files := (files d)(name \<mapsto> f\<lparr>rows := rows f @ [row], mtime := t\<rparr>)\<rparr>)"

text \<open>The row \<^verbatim>\<open>DictWriter.writerow\<close> writes for a reading, in the order of the field names.\<close>

definition encode :: "'v lib \<Rightarrow> datetime \<Rightarrow> sensor_config \<Rightarrow> 'v \<Rightarrow> string list" where
  "encode L now sensor v = [isoformat L now, sensor_id sensor, str_value L v, unit sensor]"

text \<open>\<^verbatim>\<open>update\<close>. Writing to a closed handle raises \<^verbatim>\<open>ValueError\<close>.\<close>

definition update ::
  "'v lib \<Rightarrow> env \<Rightarrow> sensor_config \<Rightarrow> 'v \<Rightarrow> logger \<Rightarrow> disk \<Rightarrow> outcome \<times> logger \<times> disk" where
  "update L ev sensor v lg d =
     (let rec = encode L (t_rec ev) sensor v in
      if \<not> fp_open lg then (Raised ValueError, lg, d)
      else
        (let d1 = write_row d (current_file lg) rec (t_write ev);
             lg1 = lg\<lparr>line_count := line_count lg + 1\<rparr>
         in
           (case needs_rotation L lg1 d1 (t_age ev) of
              Inl e \<Rightarrow> (Raised e, lg1, d1)
            | Inr False \<Rightarrow> (Done, lg1, d1)
            | Inr True \<Rightarrow> rotate L ev lg1 d1)))"

text \<open>A sequence of calls of \<^verbatim>\<open>update\<close>; it ends at the first call that raises.\<close>

type_synonym 'v call = "env \<times> sensor_config \<times> 'v"

fun run :: "'v lib \<Rightarrow> 'v call list \<Rightarrow> logger \<Rightarrow> disk \<Rightarrow> outcome \<times> logger \<times> disk" where
  "run L [] lg d = (Done, lg, d)"
| "run L ((ev, sensor, v) # calls) lg d =
     (case update L ev sensor v lg d of
        (Done, lg', d') \<Rightarrow> run L calls lg' d'
      | (Raised e, lg', d') \<Rightarrow> (Raised e, lg', d'))"

section \<open>The library on canonical text\<close>

text \<open>
  To evaluate the logger on inputs, the library functions are given on the text the logger
  itself produces. The calendar is the proleptic Gregorian one of \<^verbatim>\<open>datetime\<close>: day 1 is
  0001-01-01.
\<close>

definition is_leap :: "int \<Rightarrow> bool" where
  "is_leap y = (y mod 4 = 0 \<and> (y mod 100 \<noteq> 0 \<or> y mod 400 = 0))"

definition days_before_year :: "int \<Rightarrow> int" where
  "days_before_year y = (y - 1) * 365 + (y - 1) div 4 - (y - 1) div 100 + (y - 1) div 400"

definition days_in_month :: "int \<Rightarrow> int \<Rightarrow> int" where
  "days_in_month y m =
     (if m = 2 then (if is_leap y then 29 else 28)
      else if m = 4 \<or> m = 6 \<or> m = 9 \<or> m = 11 then 30 else 31)"

definition days_before_month :: "int \<Rightarrow> int \<Rightarrow> int" where
  "days_before_month y m = sum_list (map (days_in_month y) [1 .. m - 1])"

definition ymd2ord :: "int \<Rightarrow> int \<Rightarrow> int \<Rightarrow> int" where
  "ymd2ord y m d = days_before_year y + days_before_month y m + d"

definition ord2ymd :: "int \<Rightarrow> int \<times> int \<times> int" where
  "ord2ymd n0 =
     (let n = n0 - 1;
          n400 = n div 146097; n = n mod 146097;
          n100 = n div 36524; n = n mod 36524;
          n4 = n div 1461; n = n mod 1461;
          n1 = n div 365; n = n mod 365;
          year = n400 * 400 + 1 + n100 * 100 + n4 * 4 + n1
      in if n1 = 4 \<or> n100 = 4 then (year - 1, 12, 31)
         else
           (case find (\<lambda>m. n < days_before_month year (m + 1)) [1 .. 12] of
              None \<Rightarrow> (year, 12, 31)
            | Some month \<Rightarrow> (year, month, n - days_before_month year month + 1)))"

text \<open>The \<^verbatim>\<open>datetime\<close> of a date and a time of day, and its fields back.\<close>

definition moment :: "int \<Rightarrow> int \<Rightarrow> int \<Rightarrow> int \<Rightarrow> int \<Rightarrow> int \<Rightarrow> datetime" where
  "moment y m d hh mm ss = ((ymd2ord y m d - 1) * 86400 + hh * 3600 + mm * 60 + ss) * 1000000"

definition fields_of :: "datetime \<Rightarrow> int list" where
  "fields_of t =
     (let s = (t mod 86400000000) div 1000000 in
      case ord2ymd (t div 86400000000 + 1) of
        (y, m, d) \<Rightarrow> [y, m, d, s div 3600, s div 60 mod 60, s mod 60, t mod 1000000])"

definition valid_fields :: "int list \<Rightarrow> bool" where
  "valid_fields fs =
     (case fs of
        [y, m, d, hh, mm, ss] \<Rightarrow>
          1 \<le> y \<and> y \<le> 9999 \<and> 1 \<le> m \<and> m \<le> 12 \<and> 1 \<le> d \<and> d \<le> days_in_month y m \<and>
          hh < 24 \<and> mm < 60 \<and> ss < 60
      | _ \<Rightarrow> False)"

definition digit :: "int \<Rightarrow> char" where
  "digit k = ''0123456789'' ! nat (k mod 10)"

fun pad :: "nat \<Rightarrow> int \<Rightarrow> string" where
  "pad 0 k = []"
| "pad (Suc n) k = pad n (k div 10) @ [digit k]"

definition digit_val :: "char \<Rightarrow> int option" where
  "digit_val c = map_of (zip ''0123456789'' [0 .. 9]) c"

fun number :: "string \<Rightarrow> int \<Rightarrow> int option" where
  "number [] acc = Some acc"
| "number (c # cs) acc =
     (case digit_val c of None \<Rightarrow> None | Some k \<Rightarrow> number cs (10 * acc + k))"

text \<open>The digit groups of \<open>s\<close> that start at the given places, each of the given width.\<close>

definition groups :: "string \<Rightarrow> (nat \<times> nat) list \<Rightarrow> int list option" where
  "groups s places =
     (let ns = map (\<lambda>(i, n). number (take n (drop i s)) 0) places in
      if None \<in> set ns then None else Some (map the ns))"

text \<open>
  \<^verbatim>\<open>isoformat()\<close> prints \<^verbatim>\<open>YYYY-MM-DDTHH:MM:SS\<close>, followed by \<^verbatim>\<open>.ffffff\<close> when the
  microseconds are not zero; \<open>py_fromisoformat\<close> reads these two layouts and rejects all
  other text.
\<close>

definition py_isoformat :: "datetime \<Rightarrow> string" where
  "py_isoformat t =
     (case fields_of t of
        [y, m, d, hh, mm, ss, us] \<Rightarrow>
          pad 4 y @ ''-'' @ pad 2 m @ ''-'' @ pad 2 d @ ''T'' @
          pad 2 hh @ '':'' @ pad 2 mm @ '':'' @ pad 2 ss @
          (if us = 0 then [] else ''.'' @ pad 6 us)
      | _ \<Rightarrow> [])"

definition py_fromisoformat :: "string \<Rightarrow> datetime option" where
  "py_fromisoformat s =
     (if (length s = 19 \<or> length s = 26 \<and> s ! 19 = CHR ''.'') \<and>
         map (\<lambda>i. s ! i) [4, 7, 10, 13, 16] = ''--T::''
      then
        (case groups s [(0, 4), (5, 2), (8, 2), (11, 2), (14, 2), (17, 2)] of
           Some [y, m, d, hh, mm, ss] \<Rightarrow>
             (case number (drop 20 s) 0 of
                Some us \<Rightarrow>
                  if valid_fields [y, m, d, hh, mm, ss] then Some (moment y m d hh mm ss + us)
                  else None
              | None \<Rightarrow> None)
         | _ \<Rightarrow> None)
      else None)"

text \<open>
  \<^verbatim>\<open>strftime\<close> with the directives \<^verbatim>\<open>%Y %m %d %H %M %S %%\<close>; \<open>py_strptime\<close> reads the
  fourteen digits of the archive stamp and rejects all other text and formats.
\<close>

definition directive :: "int list \<Rightarrow> char \<Rightarrow> string" where
  "directive fs c =
     (if c = CHR ''Y'' then pad 4 (fs ! 0)
      else if c = CHR ''m'' then pad 2 (fs ! 1)
      else if c = CHR ''d'' then pad 2 (fs ! 2)
      else if c = CHR ''H'' then pad 2 (fs ! 3)
      else if c = CHR ''M'' then pad 2 (fs ! 4)
      else if c = CHR ''S'' then pad 2 (fs ! 5)
      else if c = CHR ''%'' then ''%''
      else [CHR ''%'', c])"

fun expand :: "int list \<Rightarrow> string \<Rightarrow> string" where
  "expand fs [] = []"
| "expand fs [c] = [c]"
| "expand fs (c # c' # cs) =
     (if c = CHR ''%'' then directive fs c' @ expand fs cs else c # expand fs (c' # cs))"

definition py_strftime :: "string \<Rightarrow> datetime \<Rightarrow> string" where
  "py_strftime fmt t = expand (fields_of t) fmt"

definition py_strptime :: "string \<Rightarrow> string \<Rightarrow> datetime option" where
  "py_strptime fmt s =
     (if fmt = stamp_format \<and> length s = 14
      then
        (case groups s [(0, 4), (4, 2), (6, 2), (8, 2), (10, 2), (12, 2)] of
           Some [y, m, d, hh, mm, ss] \<Rightarrow>
             if valid_fields [y, m, d, hh, mm, ss] then Some (moment y m d hh mm ss) else None
         | _ \<Rightarrow> None)
      else None)"

text \<open>
  The values are the floats that are whole numbers, below \<open>10 ^ 16\<close> in size: the csv
  writer prints \<^verbatim>\<open>21.0\<close> for 21, and \<^verbatim>\<open>float\<close> reads the digits with or without \<^verbatim>\<open>.0\<close>.
\<close>

function decimal :: "int \<Rightarrow> string" where
  "decimal k = (if k < 10 then [digit k] else decimal (k div 10) @ [digit k])"
  by pat_completeness auto
termination
  by (relation "measure nat") auto

definition py_repr :: "int \<Rightarrow> string" where
  "py_repr v = (if v < 0 then ''-'' else []) @ decimal (abs v) @ ''.0''"

definition py_float :: "string \<Rightarrow> int option" where
  "py_float s =
     (let neg = (take 1 s = ''-'');
          body = (if neg then drop 1 s else s);
          ds = (if take 2 (rev body) = rev ''.0'' then take (length body - 2) body else body)
      in if ds = [] then None
         else map_option (\<lambda>n. if neg then - n else n) (number ds 0))"

text \<open>A row of fields that need no quoting: the fields, the commas and the line end.\<close>

definition py_row_bytes :: "string list \<Rightarrow> nat" where
  "py_row_bytes r = sum_list (map length r) + (length r - 1) + 2"

definition py_lib :: "int lib" where
  "py_lib = \<lparr>isoformat = py_isoformat, fromisoformat = py_fromisoformat,
             str_value = py_repr, float_of = py_float,
             strftime = py_strftime, strptime = py_strptime,
             row_bytes = py_row_bytes\<rparr>"

section \<open>Notions the properties are stated with\<close>

text \<open>
  The parse \<^verbatim>\<open>read_logs\<close> performs on a row, taken alone: the timestamp, then the items of
  the entry.
\<close>

definition decode :: "'v lib \<Rightarrow> (string \<rightharpoonup> string option) \<Rightarrow> error + 'v entry" where
  "decode L row =
     (case parse_timestamp L row of Inl e \<Rightarrow> Inl e | Inr ts \<Rightarrow> make_entry L ts row)"

text \<open>The filter of \<^verbatim>\<open>read_logs\<close>, on an entry.\<close>

definition matches :: "datetime \<Rightarrow> datetime \<Rightarrow> string option \<Rightarrow> 'v entry \<Rightarrow> bool" where
  "matches start end sensor e =
     (start \<le> e_timestamp e \<and> e_timestamp e \<le> end \<and> (sensor = None \<or> e_sensor_id e = sensor))"

text \<open>
  The rows stored: those of the active file, then those of the members of the archives
  \<^verbatim>\<open>glob('*.zip')\<close> lists, each as the csv reader of \<^verbatim>\<open>read_logs\<close> yields it: from the
  active file in text mode, from an archive as it was written.
\<close>

definition member_dicts ::
  "(string \<times> string list list) list \<Rightarrow> (string \<rightharpoonup> string option) list" where
  "member_dicts ms = concat (map (\<lambda>(n, rs). dict_reader rs) ms)"

definition node_dicts :: "node \<Rightarrow> (string \<rightharpoonup> string option) list" where
  "node_dicts nd = (case nd of Zip ms \<Rightarrow> member_dicts ms | _ \<Rightarrow> [])"

definition zip_entries :: "disk \<Rightarrow> (string \<times> node) list" where
  "zip_entries d = filter (\<lambda>(z, nd). is_zip_name z) (archive d)"

definition active_dicts :: "logger \<Rightarrow> disk \<Rightarrow> (string \<rightharpoonup> string option) list" where
  "active_dicts lg d =
     (case files d (current_file lg) of
        None \<Rightarrow> []
      | Some f \<Rightarrow> dict_reader (text_mode (rows f)))"

definition stored_dicts :: "logger \<Rightarrow> disk \<Rightarrow> (string \<rightharpoonup> string option) list" where
  "stored_dicts lg d =
     active_dicts lg d @ concat (map (\<lambda>(z, nd). node_dicts nd) (zip_entries d))"

text \<open>The entries of a list of rows that pass the filter, in the order of the rows.\<close>

definition chosen ::
  "'v lib \<Rightarrow> datetime \<Rightarrow> datetime \<Rightarrow> string option \<Rightarrow> (string \<rightharpoonup> string option) list
     \<Rightarrow> 'v entry list" where
  "chosen L start end sensor ds =
     filter (matches start end sensor) (map (\<lambda>row. projr (decode L row)) ds)"

text \<open>
  An entry of the archive directory is too old when the stamp in its name is read and lies
  more than the retention before \<open>now\<close>.
\<close>

definition too_old :: "'v lib \<Rightarrow> logger \<Rightarrow> datetime \<Rightarrow> string \<Rightarrow> bool" where
  "too_old L lg now z =
     (case strptime L stamp_format (last_part (stem z)) of
        None \<Rightarrow> False
      | Some ts \<Rightarrow> now - ts > timedelta_days (retention lg))"

text \<open>
  The rotation predicate in the words of the specification: the row count, the age of the
  file since its creation, the size; any one of them suffices.
\<close>

definition rotation_due_spec :: "'v lib \<Rightarrow> logger \<Rightarrow> csv_file \<Rightarrow> datetime \<Rightarrow> bool" where
  "rotation_due_spec L lg f now =
     (line_count lg \<ge> rotate_after lg \<or>
      now - created f \<ge> timedelta_hours (rotate_every lg) \<or>
      st_size L f \<ge> max_size lg * 1024 * 1024)"

text \<open>The row a call writes, and the name of the archive its rotation would write.\<close>

definition enc :: "'v lib \<Rightarrow> 'v call \<Rightarrow> string list" where
  "enc L c = (case c of (ev, sensor, v) \<Rightarrow> encode L (t_rec ev) sensor v)"

definition archive_name :: "'v lib \<Rightarrow> env \<Rightarrow> logger \<Rightarrow> string" where
  "archive_name L ev lg = current_file lg @ ''.'' @ strftime L stamp_format (t_seal ev) @ ''.zip''"

text \<open>
  The age trigger and the size trigger stay silent during a list of calls on the file \<open>f\<close>:
  the age threshold is a duration \<^verbatim>\<open>timedelta\<close> accepts, each call asks for the age within
  that threshold of its own write, and the file with all the rows of the calls stays below
  the size threshold.
\<close>

definition age_silent :: "logger \<Rightarrow> 'v call list \<Rightarrow> bool" where
  "age_silent lg calls =
     (\<forall>(ev, sensor, v) \<in> set calls.
        \<not> isl (timedelta (timedelta_hours (rotate_every lg))) \<and>
        t_age ev - t_write ev < timedelta_hours (rotate_every lg))"

definition size_silent :: "'v lib \<Rightarrow> logger \<Rightarrow> csv_file \<Rightarrow> 'v call list \<Rightarrow> bool" where
  "size_silent L lg f calls =
     (st_size L f + int (sum_list (map (\<lambda>c. row_bytes L (enc L c)) calls))
        < max_size lg * 1024 * 1024)"

text \<open>
  The log directory after a rotation that succeeds: the old file is gone and the file of
  the new name is there, made with the header when it was not there.
\<close>

definition reopened :: "disk \<Rightarrow> string \<Rightarrow> string \<Rightarrow> datetime \<Rightarrow> string \<rightharpoonup> csv_file" where
  "reopened d old new t =
     (let fs = (files d)(old := None) in
      case fs new of
        None \<Rightarrow> fs(new \<mapsto> \<lparr>rows = [fieldnames], created = t, mtime = t\<rparr>)
      | Some g \<Rightarrow> fs)"

text \<open>
  The sweep that ends a rotation, given the archive directory it finds: the outcome of the
  call, and the archive directory it leaves. A sweep that raises has removed nothing.
\<close>

definition swept ::
  "'v lib \<Rightarrow> logger \<Rightarrow> datetime \<Rightarrow> (string \<times> node) list \<Rightarrow> outcome \<times> (string \<times> node) list" where
  "swept L lg now zs =
     (case expire_time lg now of
        Inl e \<Rightarrow> (Raised e, zs)
      | Inr expire \<Rightarrow> (Done, sweep L expire zs))"

text \<open>The reading a call appends, as \<^verbatim>\<open>read_logs\<close> returns it.\<close>

definition reading :: "'v call \<Rightarrow> 'v entry" where
  "reading c =
     (case c of (ev, sensor, v) \<Rightarrow>
        \<lparr>e_timestamp = t_rec ev, e_sensor_id = Some (sensor_id sensor), e_value = v,
         e_unit = Some (unit sensor)\<rparr>)"

text \<open>The call finds the rotation due after it has written its row.\<close>

definition rotates :: "'v lib \<Rightarrow> env \<Rightarrow> sensor_config \<Rightarrow> 'v \<Rightarrow> logger \<Rightarrow> disk \<Rightarrow> bool" where
  "rotates L ev sensor v lg d =
     (needs_rotation L (lg\<lparr>line_count := line_count lg + 1\<rparr>)
        (write_row d (current_file lg) (encode L (t_rec ev) sensor v) (t_write ev)) (t_age ev)
      = Inr True)"

text \<open>
  The rotation of a call loses no archive: the name of its archive is not taken, and no
  entry of the archive directory, the new one included, is too old when it sweeps.
\<close>

definition keeps_archives :: "'v lib \<Rightarrow> env \<Rightarrow> logger \<Rightarrow> disk \<Rightarrow> bool" where
  "keeps_archives L ev lg d =
     (archive_name L ev lg \<notin> fst ` set (archive d) \<and>
      (\<forall>z \<in> set (archive_name L ev lg # map fst (archive d)). \<not> too_old L lg (t_sweep ev) z))"

text \<open>
  A list of calls none of which raises and none of which loses an archive when it rotates.
\<close>

fun lossless :: "'v lib \<Rightarrow> 'v call list \<Rightarrow> logger \<Rightarrow> disk \<Rightarrow> bool" where
  "lossless L [] lg d = True"
| "lossless L ((ev, sensor, v) # calls) lg d =
     ((rotates L ev sensor v lg d \<longrightarrow> keeps_archives L ev lg d) \<and>
      (case update L ev sensor v lg d of
         (Done, lg', d') \<Rightarrow> lossless L calls lg' d'
       | (Raised e, lg', d') \<Rightarrow> False))"

text \<open>
  A text without carriage return; text mode reads it as it is. The active file is plain
  when no field of its rows holds a carriage return.
\<close>

definition plain :: "string \<Rightarrow> bool" where
  "plain s = (CHR 0x0D \<notin> set s)"

definition active_plain :: "logger \<Rightarrow> disk \<Rightarrow> bool" where
  "active_plain lg d =
     (case files d (current_file lg) of
        None \<Rightarrow> True
      | Some f \<Rightarrow> list_all (list_all plain) (rows f))"

text \<open>
  The rows stored as they were written: those of the active file without the translation
  of text mode, then those of the archives.
\<close>

definition written_dicts :: "logger \<Rightarrow> disk \<Rightarrow> (string \<rightharpoonup> string option) list" where
  "written_dicts lg d =
     (case files d (current_file lg) of
        None \<Rightarrow> []
      | Some f \<Rightarrow> dict_reader (rows f)) @
     concat (map (\<lambda>(z, nd). node_dicts nd) (zip_entries d))"

text \<open>
  The state the logger keeps from its construction in an empty directory: the handle is
  open, the active file is the only file of the log directory and starts with the header,
  and the archives listed are zip archives.
\<close>

definition tidy :: "logger \<Rightarrow> disk \<Rightarrow> bool" where
  "tidy lg d =
     (fp_open lg \<and>
      (\<exists>f. files d = [current_file lg \<mapsto> f] \<and> rows f \<noteq> [] \<and> hd (rows f) = fieldnames) \<and>
      (\<forall>(z, nd) \<in> set (zip_entries d). nd \<noteq> Junk \<and> nd \<noteq> Folder))"

section \<open>Sample inputs\<close>

definition cfg0 :: config where
  "cfg0 = \<lparr>cfg_filename_pattern = ''sensor_data.csv'', cfg_rotate_every_hours = 24,
            cfg_max_size_mb = 1, cfg_rotate_after_lines = 2, cfg_retention_days = 30\<rparr>"

text \<open>A call during which the clock does not advance and the archive is written.\<close>

definition calm :: "datetime \<Rightarrow> env" where
  "calm t = \<lparr>t_rec = t, t_write = t, t_age = t, t_seal = t, t_name = t, t_create = t,
             t_sweep = t, zip_io = ZipWritten\<rparr>"

definition thermo :: sensor_config where
  "thermo = \<lparr>sensor_id = ''T1'', unit = ''C''\<rparr>"

definition hygro :: sensor_config where
  "hygro = \<lparr>sensor_id = ''H1'', unit = ''%''\<rparr>"

definition empty_disk :: disk where
  "empty_disk = \<lparr>files = Map.empty, archive = []\<rparr>"

text \<open>A logger made at midnight of 2024-01-01 in an empty directory, and three appends.\<close>

definition fresh :: "logger \<times> disk" where
  "fresh = init py_lib cfg0 empty_disk (moment 2024 1 1 0 0 0) (moment 2024 1 1 0 0 0)"

definition three_calls :: "int call list" where
  "three_calls =
     [(calm (moment 2024 1 1 0 0 1), thermo, 21),
      (calm (moment 2024 1 1 0 0 2), hygro, 40),
      (calm (moment 2024 1 1 0 0 3), thermo, 23)]"

definition after_three :: "logger \<times> disk" where
  "after_three = snd (run py_lib three_calls (fst fresh) (snd fresh))"

text \<open>An archive directory with old and recent archives and with foreign entries.\<close>

definition dusty_disk :: disk where
  "dusty_disk = \<lparr>files = Map.empty, archive =
     [(''sensor_data.csv.20231101000000.zip'', Zip [(''sensor_data.csv'', [fieldnames])]),
      (''sensor_data.csv.20231215000000.zip'', Zip [(''sensor_data.csv'', [fieldnames])]),
      (''notes.txt'', Junk),
      (''sensor_data.csv.backup.zip'', Zip []),
      (''20230101000000.d'', Folder),
      (''20230101000000.txt'', Junk)]\<rparr>"

text \<open>An active file whose second row has no timestamp that can be read.\<close>

definition spoiled_disk :: disk where
  "spoiled_disk = \<lparr>files = [''sensor_data.csv'' \<mapsto>
       \<lparr>rows = [fieldnames,
                [''2024-01-01T00:00:01'', ''T1'', ''21.0'', ''C''],
                [''yesterday'', ''T1'', ''22.0'', ''C''],
                [''2024-01-01T00:00:03'', ''T1'', ''23.0'', ''C'']],
        created = moment 2024 1 1 0 0 0, mtime = moment 2024 1 1 0 0 3\<rparr>],
     archive = []\<rparr>"

text \<open>The archive of \<open>after_three\<close> is removed after the listing.\<close>

definition archive_vanishes :: race where
  "archive_vanishes = \<lparr>active_gone = False, archives_gone = {''sensor_data.csv.20240101000002.zip''}\<rparr>"

text \<open>
  A logger that rotates every hour, made at midnight, and a call three hours later during
  which the clock advances.
\<close>

definition hourly_cfg :: config where
  "hourly_cfg = \<lparr>cfg_filename_pattern = ''sensor_data.csv'', cfg_rotate_every_hours = 1,
            cfg_max_size_mb = 1, cfg_rotate_after_lines = 100, cfg_retention_days = 30\<rparr>"

definition hourly :: "logger \<times> disk" where
  "hourly = init py_lib hourly_cfg empty_disk (moment 2024 1 1 0 0 0) (moment 2024 1 1 0 0 0)"

definition three_hours_later :: env where
  "three_hours_later =
     \<lparr>t_rec = moment 2024 1 1 3 0 0, t_write = moment 2024 1 1 3 0 0 + 40,
      t_age = moment 2024 1 1 3 0 0 + 90, t_seal = moment 2024 1 1 3 0 0 + 120,
      t_name = moment 2024 1 1 3 0 0 + 900, t_create = moment 2024 1 1 3 0 0 + 950,
      t_sweep = moment 2024 1 1 3 0 0 + 990, zip_io = ZipWritten\<rparr>"

text \<open>Two appends; the archive of the rotation the second one starts cannot be opened.\<close>

definition failing_calls :: "int call list" where
  "failing_calls =
     [(calm (moment 2024 1 1 0 0 1), thermo, 21),
      ((calm (moment 2024 1 1 0 0 2))\<lparr>zip_io := ZipOpenFails\<rparr>, hygro, 40)]"

definition broken :: "outcome \<times> logger \<times> disk" where
  "broken = run py_lib failing_calls (fst fresh) (snd fresh)"

text \<open>The logger of \<open>fresh\<close> after the first two of the three appends.\<close>

definition after_two :: "logger \<times> disk" where
  "after_two = snd (run py_lib (take 2 three_calls) (fst fresh) (snd fresh))"

text \<open>A log directory in which the file of the pattern is there already, with three rows.\<close>

definition stocked_disk :: disk where
  "stocked_disk = \<lparr>files = [''sensor_data.csv'' \<mapsto>
       \<lparr>rows = [fieldnames,
                [''2023-12-31T23:00:01'', ''T1'', ''18.0'', ''C''],
                [''2023-12-31T23:00:02'', ''T1'', ''19.0'', ''C''],
                [''2023-12-31T23:00:03'', ''T1'', ''20.0'', ''C'']],
        created = moment 2023 12 31 23 0 0, mtime = moment 2023 12 31 23 0 3\<rparr>],
     archive = []\<rparr>"

text \<open>
  A logger that rotates after every row and keeps its archives one day, and two appends
  two days apart.
\<close>

definition brief_cfg :: config where
  "brief_cfg = \<lparr>cfg_filename_pattern = ''sensor_data.csv'', cfg_rotate_every_hours = 24,
            cfg_max_size_mb = 1, cfg_rotate_after_lines = 1, cfg_retention_days = 1\<rparr>"

definition brief :: "logger \<times> disk" where
  "brief = init py_lib brief_cfg empty_disk (moment 2024 1 1 0 0 0) (moment 2024 1 1 0 0 0)"

definition two_days :: "outcome \<times> logger \<times> disk" where
  "two_days =
     (let (lg, d) = init py_lib brief_cfg empty_disk (moment 2024 1 1 0 0 0) (moment 2024 1 1 0 0 0)
      in run py_lib [(calm (moment 2024 1 1 12 0 0), thermo, 21),
                     (calm (moment 2024 1 3 12 0 0), hygro, 40)] lg d)"

text \<open>
  A logger that keeps its archives a million days: \<^verbatim>\<open>timedelta\<close> accepts the duration, and
  no \<^verbatim>\<open>datetime\<close> lies that long before 2024.
\<close>

definition everlasting_cfg :: config where
  "everlasting_cfg = \<lparr>cfg_filename_pattern = ''sensor_data.csv'', cfg_rotate_every_hours = 24,
            cfg_max_size_mb = 1, cfg_rotate_after_lines = 2, cfg_retention_days = 1000000\<rparr>"

definition everlasting_logger :: logger where
  "everlasting_logger =
     fst (init py_lib everlasting_cfg empty_disk (moment 2024 1 1 0 0 0) (moment 2024 1 1 0 0 0))"

definition everlasting :: "outcome \<times> logger \<times> disk" where
  "everlasting =
     (let (lg, d) = init py_lib everlasting_cfg empty_disk (moment 2024 1 1 0 0 0) (moment 2024 1 1 0 0 0)
      in run py_lib (take 2 three_calls) lg d)"

text \<open>
  Two appends within one second to the logger that rotates after every row: both
  rotations write the archive of the same name.
\<close>

definition same_second :: "outcome \<times> logger \<times> disk" where
  "same_second =
     run py_lib [(calm (moment 2024 1 1 12 0 0), thermo, 21),
                 (calm (moment 2024 1 1 12 0 0 + 500000), hygro, 40)] (fst brief) (snd brief)"

text \<open>
  A sensor whose id holds a carriage return. One append of its reading leaves the row in
  the active file; a second append rotates, and the row is in the archive.
\<close>

definition cr_sensor :: sensor_config where
  "cr_sensor = \<lparr>sensor_id = [CHR ''a'', CHR 0x0D, CHR ''b''], unit = ''C''\<rparr>"

definition cr_call :: "int call" where
  "cr_call = (calm (moment 2024 1 1 0 0 1), cr_sensor, 21)"

definition cr_active :: "outcome \<times> logger \<times> disk" where
  "cr_active = run py_lib [cr_call] (fst fresh) (snd fresh)"

definition cr_sealed :: "outcome \<times> logger \<times> disk" where
  "cr_sealed =
     run py_lib [cr_call, (calm (moment 2024 1 1 0 0 2), hygro, 40)] (fst fresh) (snd fresh)"

section \<open>Reading: the filter and the order\<close>

lemma make_entry_timestamp: "make_entry L ts row = Inr e \<Longrightarrow> e_timestamp e = ts"
  by (auto simp: make_entry_def split: sum.splits)

lemma make_entry_sensor: "make_entry L ts row = Inr e \<Longrightarrow> getitem row ''sensor_id'' = Inr (e_sensor_id e)"
  by (auto simp: make_entry_def split: sum.splits)

lemma read_row_decode:
  assumes "decode L row = Inr e"
  shows "read_row L start end sensor row = Inr (if matches start end sensor e then Some e else None)"
proof -
  from assms obtain ts where ts: "parse_timestamp L row = Inr ts" and me: "make_entry L ts row = Inr e"
    by (auto simp: decode_def split: sum.splits)
  have t: "e_timestamp e = ts" using me by (rule make_entry_timestamp)
  have s: "getitem row ''sensor_id'' = Inr (e_sensor_id e)" using me by (rule make_entry_sensor)
  show ?thesis
    by (cases sensor) (auto simp: read_row_def ts me t s matches_def)
qed

lemma scan_rows_decoded:
  "\<forall>row \<in> set ds. \<exists>e. decode L row = Inr e \<Longrightarrow>
   scan_rows L start end sensor ds acc = Inr (acc @ chosen L start end sensor ds)"
proof (induction ds arbitrary: acc)
  case Nil
  show ?case by (simp add: chosen_def)
next
  case (Cons row ds)
  then obtain e where e: "decode L row = Inr e" by auto
  have rest: "\<And>acc. scan_rows L start end sensor ds acc = Inr (acc @ chosen L start end sensor ds)"
    using Cons by simp
  show ?case
    by (simp add: read_row_decode[OF e] rest chosen_def e)
qed

lemma chosen_append: "chosen L s e sn (xs @ ys) = chosen L s e sn xs @ chosen L s e sn ys"
  by (simp add: chosen_def)

lemma scan_members_decoded:
  "\<forall>row \<in> set (member_dicts ms). \<exists>e. decode L row = Inr e \<Longrightarrow>
   scan_members L start end sensor ms acc = Inr (acc @ chosen L start end sensor (member_dicts ms))"
proof (induction ms arbitrary: acc)
  case Nil
  show ?case by (simp add: chosen_def member_dicts_def)
next
  case (Cons m ms)
  obtain n rs where m: "m = (n, rs)" by (cases m)
  have a: "\<forall>row \<in> set (dict_reader rs). \<exists>e. decode L row = Inr e"
    using Cons.prems by (simp add: m member_dicts_def)
  have b: "\<forall>row \<in> set (member_dicts ms). \<exists>e. decode L row = Inr e"
    using Cons.prems by (simp add: m member_dicts_def)
  have md: "member_dicts (m # ms) = dict_reader rs @ member_dicts ms"
    by (simp add: m member_dicts_def)
  show ?case
    by (simp add: m scan_rows_decoded[OF a] Cons.IH[OF b] md[unfolded m] chosen_append)
qed

lemma scan_archives_decoded:
  assumes "\<forall>(z, nd) \<in> set zs. nd \<noteq> Junk \<and> nd \<noteq> Folder"
    and "\<forall>row \<in> set (concat (map (\<lambda>(z, nd). node_dicts nd) zs)). \<exists>e. decode L row = Inr e"
  shows "scan_archives L quiet start end sensor zs acc =
         Inr (acc @ chosen L start end sensor (concat (map (\<lambda>(z, nd). node_dicts nd) zs)))"
  using assms
proof (induction zs arbitrary: acc)
  case Nil
  show ?case by (simp add: chosen_def)
next
  case (Cons x zs)
  obtain z nd where x: "x = (z, nd)" by (cases x)
  from Cons.prems(1) obtain ms where nd: "nd = Zip ms" by (cases nd) (auto simp: x)
  have a: "\<forall>row \<in> set (member_dicts ms). \<exists>e. decode L row = Inr e"
    using Cons.prems(2) by (simp add: x nd node_dicts_def)
  have b: "\<forall>(z, nd) \<in> set zs. nd \<noteq> Junk \<and> nd \<noteq> Folder" using Cons.prems(1) by simp
  have c: "\<forall>row \<in> set (concat (map (\<lambda>(z, nd). node_dicts nd) zs)). \<exists>e. decode L row = Inr e"
    using Cons.prems(2) by simp
  show ?case
    by (simp add: x nd quiet_def scan_members_decoded[OF a] Cons.IH[OF b c, unfolded quiet_def]
        node_dicts_def chosen_append)
qed

lemma read_logs_chosen:
  assumes zips: "\<forall>(z, nd) \<in> set (zip_entries d). nd \<noteq> Junk \<and> nd \<noteq> Folder"
    and ok': "\<forall>row \<in> set (stored_dicts lg d). \<not> isl (decode L row)"
  shows "read_logs L lg d quiet start end sensor =
           Inr (sort_key e_timestamp (chosen L start end sensor (stored_dicts lg d)))"
proof -
  have ok: "\<forall>row \<in> set (stored_dicts lg d). \<exists>e. decode L row = Inr e"
  proof
    fix row assume "row \<in> set (stored_dicts lg d)"
    with ok' have "\<not> isl (decode L row)" by blast
    then show "\<exists>e. decode L row = Inr e" by (cases "decode L row") auto
  qed
  have a: "\<forall>row \<in> set (active_dicts lg d). \<exists>e. decode L row = Inr e"
    using ok by (simp add: stored_dicts_def)
  have b: "\<forall>row \<in> set (concat (map (\<lambda>(z, nd). node_dicts nd) (zip_entries d))).
             \<exists>e. decode L row = Inr e"
    using ok by (simp add: stored_dicts_def)
  have act: "scan_active L lg d quiet start end sensor =
               Inr (chosen L start end sensor (active_dicts lg d))"
  proof (cases "files d (current_file lg)")
    case None
    then show ?thesis by (simp add: scan_active_def active_dicts_def chosen_def)
  next
    case (Some f)
    with a have "\<forall>row \<in> set (dict_reader (text_mode (rows f))). \<exists>e. decode L row = Inr e"
      by (simp add: active_dicts_def)
    from scan_rows_decoded[OF this] Some show ?thesis
      by (simp add: scan_active_def active_dicts_def quiet_def)
  qed
  show ?thesis
    by (simp add: read_logs_def act scan_archives_decoded[OF zips b, unfolded zip_entries_def]
        stored_dicts_def chosen_append zip_entries_def)
qed



section \<open>Reading: rows that do not decode, files that vanish\<close>

lemma read_row_bad_timestamp:
  "isl (parse_timestamp L row) \<Longrightarrow> isl (read_row L start end sensor row)"
  by (auto simp: read_row_def split: sum.splits)

lemma scan_rows_fails:
  "row \<in> set ds \<Longrightarrow> isl (read_row L start end sensor row) \<Longrightarrow>
   isl (scan_rows L start end sensor ds acc)"
  by (induction ds arbitrary: acc) (auto split: sum.splits option.splits)

lemma scan_members_fails:
  "row \<in> set (member_dicts ms) \<Longrightarrow> isl (read_row L start end sensor row) \<Longrightarrow>
   isl (scan_members L start end sensor ms acc)"
proof (induction ms arbitrary: acc)
  case Nil
  then show ?case by (simp add: member_dicts_def)
next
  case (Cons m ms)
  obtain n rs where m: "m = (n, rs)" by (cases m)
  show ?case
  proof (cases "scan_rows L start end sensor (dict_reader rs) acc")
    case (Inl e)
    then show ?thesis by (simp add: m)
  next
    case (Inr acc')
    have "row \<notin> set (dict_reader rs)"
      using scan_rows_fails[OF _ Cons.prems(2), of "dict_reader rs" acc] Inr by auto
    with Cons.prems(1) have "row \<in> set (member_dicts ms)"
      by (auto simp: m member_dicts_def)
    from Cons.IH[OF this Cons.prems(2), of acc'] show ?thesis
      by (simp add: m Inr)
  qed
qed

lemma scan_archives_fails:
  "row \<in> set (concat (map (\<lambda>(z, nd). node_dicts nd) zs)) \<Longrightarrow>
   isl (read_row L start end sensor row) \<Longrightarrow>
   isl (scan_archives L rc start end sensor zs acc)"
proof (induction zs arbitrary: acc)
  case Nil
  then show ?case by simp
next
  case (Cons x zs)
  obtain z nd where x: "x = (z, nd)" by (cases x)
  show ?case
  proof (cases nd)
    case (Zip ms)
    show ?thesis
    proof (cases "scan_members L start end sensor ms acc")
      case (Inl e)
      then show ?thesis by (simp add: x Zip)
    next
      case (Inr acc')
      have "row \<notin> set (member_dicts ms)"
        using scan_members_fails[OF _ Cons.prems(2), of ms acc] Inr by auto
      with Cons.prems(1) have "row \<in> set (concat (map (\<lambda>(z, nd). node_dicts nd) zs))"
        by (auto simp: x Zip node_dicts_def)
      from Cons.IH[OF this Cons.prems(2), of acc'] show ?thesis
        by (simp add: x Zip Inr)
    qed
  qed (simp_all add: x)
qed

lemma scan_archives_gone:
  "(z, nd) \<in> set zs \<Longrightarrow> z \<in> archives_gone rc \<Longrightarrow>
   isl (scan_archives L rc start end sensor zs acc)"
proof (induction zs arbitrary: acc)
  case Nil
  then show ?case by simp
next
  case (Cons x zs)
  obtain z' nd' where x: "x = (z', nd')" by (cases x)
  show ?case
  proof (cases "z' \<in> archives_gone rc")
    case True
    then show ?thesis by (simp add: x)
  next
    case False
    with Cons.prems have in_rest: "(z, nd) \<in> set zs" by (auto simp: x)
    show ?thesis
    proof (cases nd')
      case (Zip ms)
      show ?thesis
      proof (cases "scan_members L start end sensor ms acc")
        case (Inl e)
        then show ?thesis by (simp add: x Zip False)
      next
        case (Inr acc')
        from Cons.IH[OF in_rest Cons.prems(2), of acc'] show ?thesis
          by (simp add: x Zip Inr False)
      qed
    qed (simp_all add: x False)
  qed
qed

text \<open>
  C8, as the code has it. \<^verbatim>\<open>read_logs\<close> has no policy for rows that do not decode: when a
  stored row, in the active file or in an archive, has a timestamp that is missing or is
  not read, or raises in the body of the loop (a value that is not numeric, in a row that
  passes the filter), the whole read raises and no row is returned.
\<close>

theorem malformed_row_aborts_read:
  assumes "\<exists>row \<in> set (stored_dicts lg d).
             isl (parse_timestamp L row) \<or> isl (read_row L start end sensor row)"
  shows "isl (read_logs L lg d rc start end sensor)"
proof -
  from assms obtain row where mem: "row \<in> set (stored_dicts lg d)"
    and bad: "isl (read_row L start end sensor row)"
    using read_row_bad_timestamp by blast
  show ?thesis
  proof (cases "scan_active L lg d rc start end sensor")
    case (Inl e)
    then show ?thesis by (simp add: read_logs_def)
  next
    case (Inr acc)
    have "row \<notin> set (active_dicts lg d)"
    proof
      assume a: "row \<in> set (active_dicts lg d)"
      then obtain f where f: "files d (current_file lg) = Some f"
        by (cases "files d (current_file lg)") (auto simp: active_dicts_def)
      with a have "row \<in> set (dict_reader (text_mode (rows f)))" by (simp add: active_dicts_def)
      from scan_rows_fails[OF this bad, of "[]"] Inr f show False
        by (auto simp: scan_active_def split: if_splits)
    qed
    with mem have "row \<in> set (concat (map (\<lambda>(z, nd). node_dicts nd) (zip_entries d)))"
      by (simp add: stored_dicts_def)
    from scan_archives_fails[OF this bad, of rc acc] show ?thesis
      by (auto simp: read_logs_def Inr zip_entries_def split: sum.splits)
  qed
qed

text \<open>
  The claim C8 as it is written fails: the second of three rows has the timestamp
  \<^verbatim>\<open>yesterday\<close>, and the read raises \<^verbatim>\<open>ValueError\<close> instead of returning the other two rows.
\<close>

theorem malformed_row_counterexample:
  "read_logs py_lib (fst fresh) spoiled_disk quiet (moment 2024 1 1 0 0 0) (moment 2024 1 2 0 0 0) None
     = Inl ValueError"
  by code_simp

theorem malformed_row_aborts_read_witness:
  "isl (read_logs py_lib (fst fresh) spoiled_disk quiet (moment 2024 1 1 0 0 0) (moment 2024 1 2 0 0 0) None)"
proof -
  have a: "\<exists>row \<in> set (stored_dicts (fst fresh) spoiled_disk).
             isl (parse_timestamp py_lib row) \<or>
             isl (read_row py_lib (moment 2024 1 1 0 0 0) (moment 2024 1 2 0 0 0) None row)"
    by code_simp
  from malformed_row_aborts_read[OF a] show ?thesis .
qed

text \<open>
  C9, as the code has it. The active file is skipped when it is not there at the time of
  the test \<^verbatim>\<open>exists()\<close>; when it is removed between the test and the opening the read raises
  \<^verbatim>\<open>FileNotFoundError\<close>, and when an archive that \<^verbatim>\<open>glob\<close> listed is removed before it is
  opened the read raises as well.
\<close>

theorem vanished_file:
  "(files d (current_file lg) = None \<longrightarrow>
      read_logs L lg d rc start end sensor =
        map_sum id (sort_key e_timestamp) (scan_archives L rc start end sensor (zip_entries d) [])) \<and>
   (files d (current_file lg) \<noteq> None \<and> active_gone rc \<longrightarrow>
      read_logs L lg d rc start end sensor = Inl FileNotFoundError) \<and>
   ((z, nd) \<in> set (zip_entries d) \<and> z \<in> archives_gone rc \<longrightarrow>
      isl (read_logs L lg d rc start end sensor))"
proof (intro conjI impI)
  assume "files d (current_file lg) = None"
  then show "read_logs L lg d rc start end sensor =
        map_sum id (sort_key e_timestamp) (scan_archives L rc start end sensor (zip_entries d) [])"
    by (simp add: read_logs_def scan_active_def zip_entries_def split: sum.splits)
next
  assume "files d (current_file lg) \<noteq> None \<and> active_gone rc"
  then show "read_logs L lg d rc start end sensor = Inl FileNotFoundError"
    by (auto simp: read_logs_def scan_active_def)
next
  assume a: "(z, nd) \<in> set (zip_entries d) \<and> z \<in> archives_gone rc"
  show "isl (read_logs L lg d rc start end sensor)"
  proof (cases "scan_active L lg d rc start end sensor")
    case (Inl e)
    then show ?thesis by (simp add: read_logs_def)
  next
    case (Inr acc)
    from a scan_archives_gone[of z nd "zip_entries d" rc L start "end" sensor acc]
    show ?thesis
      by (auto simp: read_logs_def Inr zip_entries_def split: sum.splits)
  qed
qed

text \<open>
  The claim C9 as it is written fails: the one archive of the logger is listed, then
  removed, and the read raises instead of returning the row of the active file.
\<close>

theorem vanished_file_counterexample:
  "read_logs py_lib (fst after_three) (snd after_three) archive_vanishes
     (moment 2024 1 1 0 0 0) (moment 2024 1 2 0 0 0) None = Inl FileNotFoundError"
  by code_simp

theorem vanished_file_witness:
  "isl (read_logs py_lib (fst after_three) (snd after_three) archive_vanishes
     (moment 2024 1 1 0 0 0) (moment 2024 1 2 0 0 0) None)"
proof -
  have "(''sensor_data.csv.20240101000002.zip'',
          Zip [(''sensor_data.csv'', [fieldnames,
                 [''2024-01-01T00:00:01'', ''T1'', ''21.0'', ''C''],
                 [''2024-01-01T00:00:02'', ''H1'', ''40.0'', ''%'']])])
        \<in> set (zip_entries (snd after_three)) \<and>
        ''sensor_data.csv.20240101000002.zip'' \<in> archives_gone archive_vanishes"
    by code_simp
  with vanished_file[of "snd after_three" "fst after_three" py_lib archive_vanishes
      "moment 2024 1 1 0 0 0" "moment 2024 1 2 0 0 0" None]
  show ?thesis by blast
qed


section \<open>The retention sweep\<close>

lemma sweep_filter:
  "sweep L expire zs =
   filter (\<lambda>(z, nd). \<not> ((case strptime L stamp_format (last_part (stem z)) of
                             None \<Rightarrow> False | Some ts \<Rightarrow> ts < expire) \<and> nd \<noteq> Folder)) zs"
  by (induction zs) (auto split: option.splits node.splits)

text \<open>
  When \<^verbatim>\<open>expire\<close> is computed it is \<open>now\<close> minus the retention; when it is not, the error is
  \<^verbatim>\<open>OverflowError\<close>.
\<close>

lemma expire_time_value:
  "expire_time lg now = Inr e \<Longrightarrow> e = now - timedelta_days (retention lg)"
  by (auto simp: expire_time_def timedelta_def datetime_sub_def split: sum.splits if_splits)

lemma expire_time_error: "expire_time lg now = Inl e \<Longrightarrow> e = OverflowError"
  by (auto simp: expire_time_def timedelta_def datetime_sub_def split: sum.splits if_splits)

text \<open>
  With a retention that is not negative, \<^verbatim>\<open>expire\<close> overflows only when the retention
  reaches back before the year 1, and then no stamp is that old.
\<close>

lemma overflow_nothing_too_old:
  assumes "isl (expire_time lg now)" and "0 \<le> retention lg" and "now \<le> datetime_max"
    and "\<forall>ts. strptime L stamp_format (last_part (stem z)) = Some ts \<longrightarrow> 0 \<le> ts"
  shows "\<not> too_old L lg now z"
proof -
  have "now < timedelta_days (retention lg)"
    using assms(1,2,3)
    by (auto simp: expire_time_def timedelta_def datetime_sub_def datetime_max_def
        timedelta_days_def split: sum.splits if_splits)
  with assms(4) show ?thesis
    by (fastforce simp: too_old_def split: option.splits)
qed

text \<open>
  C7. When \<^verbatim>\<open>expire\<close> is computed, the sweep keeps the entries of the archive directory in
  their order and removes exactly the files whose name holds a stamp older than the
  retention: \<open>now\<close> minus the stamp exceeds \<^verbatim>\<open>retention_days\<close>. An entry whose stamp is not
  read is kept, and so is a directory, on which \<^verbatim>\<open>unlink\<close> raises; neither stops the sweep
  of the other entries. The log directory is not touched. When \<^verbatim>\<open>expire\<close> overflows, the
  sweep raises \<^verbatim>\<open>OverflowError\<close> before it looks at an entry and removes nothing; for a
  retention that is not negative no entry is too old then.
\<close>

theorem retention_sweep:
  "(case cleanup_archives L lg d now of
      Inr d' \<Rightarrow>
        archive d' =
          filter (\<lambda>(z, nd). \<not> (too_old L lg now z \<and> nd \<noteq> Folder)) (archive d) \<and>
        files d' = files d \<and>
        ((z, nd) \<in> set (archive d') \<longleftrightarrow>
           (z, nd) \<in> set (archive d) \<and> \<not> (too_old L lg now z \<and> nd \<noteq> Folder))
    | Inl e \<Rightarrow>
        e = OverflowError \<and>
        (0 \<le> retention lg \<and> now \<le> datetime_max \<and>
         (\<forall>ts. strptime L stamp_format (last_part (stem z)) = Some ts \<longrightarrow> 0 \<le> ts)
           \<longrightarrow> \<not> too_old L lg now z)) \<and>
   (isl (cleanup_archives L lg d now) \<longleftrightarrow> isl (expire_time lg now))"
proof (cases "expire_time lg now")
  case (Inl e)
  then have c: "cleanup_archives L lg d now = Inl OverflowError"
    using expire_time_error[OF Inl] by (simp add: cleanup_archives_def)
  have "isl (expire_time lg now)" using Inl by simp
  with overflow_nothing_too_old[where lg = lg and now = now and L = L and z = z] show ?thesis
    by (auto simp: c)
next
  case (Inr expire)
  have e: "expire = now - timedelta_days (retention lg)"
    using Inr by (rule expire_time_value)
  have c: "cleanup_archives L lg d now = Inr (d\<lparr>archive := sweep L expire (archive d)\<rparr>)"
    by (simp add: cleanup_archives_def Inr)
  have "(\<lambda>(z, nd). \<not> ((case strptime L stamp_format (last_part (stem z)) of
                             None \<Rightarrow> False | Some ts \<Rightarrow> ts < expire) \<and> nd \<noteq> Folder))
        = (\<lambda>(z, nd). \<not> (too_old L lg now z \<and> nd \<noteq> Folder))"
    by (auto simp: too_old_def e fun_eq_iff split: option.splits)
  then have "sweep L expire (archive d) =
     filter (\<lambda>(z, nd). \<not> (too_old L lg now z \<and> nd \<noteq> Folder)) (archive d)"
    by (simp add: sweep_filter)
  then show ?thesis by (auto simp: c Inr)
qed

theorem retention_sweep_witness:
  "map_sum id (\<lambda>d. map fst (archive d))
     (cleanup_archives py_lib (fst fresh) dusty_disk (moment 2024 1 1 0 0 0)) =
   Inr [''sensor_data.csv.20231215000000.zip'', ''notes.txt'', ''sensor_data.csv.backup.zip'',
        ''20230101000000.d''] \<and>
   map_sum id (\<lambda>d. map fst (archive d))
     (cleanup_archives py_lib everlasting_logger dusty_disk (moment 2024 1 1 0 0 0)) =
   Inl OverflowError \<and>
   \<not> too_old py_lib everlasting_logger (moment 2024 1 1 0 0 0) ''sensor_data.csv.20231101000000.zip''"
proof -
  let ?c = "cleanup_archives py_lib (fst fresh) dusty_disk (moment 2024 1 1 0 0 0)"
  have "\<not> isl ?c" by code_simp
  then obtain d' where c: "?c = Inr d'" by (cases ?c) auto
  have kept: "map fst (filter (\<lambda>(z, nd). \<not> (too_old py_lib (fst fresh) (moment 2024 1 1 0 0 0) z \<and> nd \<noteq> Folder))
          (archive dusty_disk)) =
     [''sensor_data.csv.20231215000000.zip'', ''notes.txt'', ''sensor_data.csv.backup.zip'',
      ''20230101000000.d'']"
    by code_simp
  from retention_sweep[where L = py_lib and lg = "fst fresh" and d = dusty_disk
      and now = "moment 2024 1 1 0 0 0"]
  have "archive d' = filter (\<lambda>(z, nd). \<not> (too_old py_lib (fst fresh) (moment 2024 1 1 0 0 0) z \<and> nd \<noteq> Folder))
          (archive dusty_disk)"
    unfolding c by simp
  with kept have first: "map_sum id (\<lambda>d. map fst (archive d)) ?c =
     Inr [''sensor_data.csv.20231215000000.zip'', ''notes.txt'', ''sensor_data.csv.backup.zip'',
          ''20230101000000.d'']"
    by (simp add: c)
  let ?z = "''sensor_data.csv.20231101000000.zip''"
  let ?now = "moment 2024 1 1 0 0 0"
  let ?o = "cleanup_archives py_lib everlasting_logger dusty_disk ?now"
  define ts0 where "ts0 = the (strptime py_lib stamp_format (last_part (stem ?z)))"
  have "isl ?o" by code_simp
  then obtain e where o: "?o = Inl e" by (cases ?o) auto
  have r0: "0 \<le> retention everlasting_logger" by code_simp
  have n0: "?now \<le> datetime_max" by code_simp
  have st: "strptime py_lib stamp_format (last_part (stem ?z)) = Some ts0"
    unfolding ts0_def by code_simp
  have p0: "0 \<le> ts0" unfolding ts0_def by code_simp
  have stamps: "\<forall>ts. strptime py_lib stamp_format (last_part (stem ?z)) = Some ts \<longrightarrow> 0 \<le> ts"
    unfolding st using p0 by simp
  note sw = retention_sweep[where L = py_lib and lg = everlasting_logger and d = dusty_disk
      and now = ?now and z = ?z and nd = Junk, unfolded o sum.case]
  have raised: "e = OverflowError"
    by (rule sw[THEN conjunct1, THEN conjunct1])
  have "0 \<le> retention everlasting_logger \<and> ?now \<le> datetime_max \<and>
         (\<forall>ts. strptime py_lib stamp_format (last_part (stem ?z)) = Some ts \<longrightarrow> 0 \<le> ts)
           \<longrightarrow> \<not> too_old py_lib everlasting_logger ?now ?z"
    by (rule sw[THEN conjunct1, THEN conjunct2])
  with r0 n0 stamps have young: "\<not> too_old py_lib everlasting_logger ?now ?z" by blast
  have second: "map_sum id (\<lambda>d. map fst (archive d)) ?o = Inl OverflowError"
    unfolding o raised by simp
  from first second young show ?thesis by (intro conjI)
qed

section \<open>The rotation predicate\<close>

lemma needs_rotation_count:
  "files d (current_file lg) = Some f \<Longrightarrow> rotate_after lg \<le> line_count lg \<Longrightarrow>
   needs_rotation L lg d now = Inr True"
  by (simp add: needs_rotation_def Let_def)

lemma needs_rotation_triggers:
  "files d (current_file lg) = Some f \<Longrightarrow>
   \<not> isl (timedelta (timedelta_hours (rotate_every lg))) \<Longrightarrow>
   needs_rotation L lg d now =
     Inr (line_count lg \<ge> rotate_after lg \<or>
          now - mtime f \<ge> timedelta_hours (rotate_every lg) \<or>
          st_size L f \<ge> max_size lg * 1024 * 1024)"
  by (auto simp: needs_rotation_def Let_def timedelta_def split: if_splits)

lemma needs_rotation_overflow:
  "files d (current_file lg) = Some f \<Longrightarrow> line_count lg < rotate_after lg \<Longrightarrow>
   isl (timedelta (timedelta_hours (rotate_every lg))) \<Longrightarrow>
   needs_rotation L lg d now = Inl OverflowError"
  by (auto simp: needs_rotation_def Let_def timedelta_def split: if_splits)

text \<open>
  C4. The three triggers are or-ed and each compares with \<open>\<ge>\<close>, as the lemma
  \<open>needs_rotation_triggers\<close> says, but the age is \<open>now\<close> minus \<^verbatim>\<open>st_mtime\<close>, the time of
  the last write, where the claim has the creation time. \<^verbatim>\<open>update\<close> flushes its row before
  it asks, so the age it sees is the time since that flush. Here the file is made at
  midnight with \<^verbatim>\<open>rotate_every_hours = 1\<close> and gets a row three hours later: by the
  predicate of the specification the rotation is due, and the call does not rotate.
\<close>

theorem age_trigger_after_three_hours:
  "(case update py_lib three_hours_later thermo 21 (fst hourly) (snd hourly) of
      (out, lg, d) \<Rightarrow>
        out = Done \<and> archive d = [] \<and>
        needs_rotation py_lib lg d (t_age three_hours_later) = Inr False \<and>
        (case files d (current_file lg) of
           None \<Rightarrow> False
         | Some f \<Rightarrow>
             created f = moment 2024 1 1 0 0 0 \<and>
             rotation_due_spec py_lib lg f (t_age three_hours_later)))"
  by code_simp

section \<open>A rotation that fails\<close>

lemma update_closed: "\<not> fp_open lg \<Longrightarrow> update L ev s v lg d = (Raised ValueError, lg, d)"
  by (simp add: update_def)

lemma rotate_fails:
  "zip_io ev \<noteq> ZipWritten \<Longrightarrow>
   \<exists>d'. rotate L ev lg d = (Raised OSError, lg\<lparr>fp_open := False\<rparr>, d') \<and> files d' = files d"
  by (cases "zip_io ev") (auto simp: rotate_def Let_def)

lemma rotate_not_done:
  "fst (rotate L ev lg d) \<noteq> Done \<Longrightarrow> fst (rotate L ev lg d) \<noteq> Raised OverflowError \<Longrightarrow>
   files (snd (snd (rotate L ev lg d))) = files d"
proof -
  have "cleanup_archives L lg' d' now = Inl e \<Longrightarrow> e = OverflowError" for lg' d' now e
    by (auto simp: cleanup_archives_def expire_time_error split: sum.splits)
  then show "fst (rotate L ev lg d) \<noteq> Done \<Longrightarrow> fst (rotate L ev lg d) \<noteq> Raised OverflowError \<Longrightarrow>
   files (snd (snd (rotate L ev lg d))) = files d"
    by (auto simp: rotate_def Let_def open_file_def split: option.splits if_splits prod.splits
        sum.splits)
qed

text \<open>
  C6, as the code has it. When the archive is not written, \<^verbatim>\<open>update\<close> raises the error to
  its caller and the active file stays in the log directory with all its rows, the one
  just written included: \<^verbatim>\<open>unlink\<close> comes after the \<^verbatim>\<open>with\<close> block (lemma
  \<open>rotate_not_done\<close>: but for the sweep that overflows, a rotation that raises leaves
  the log directory as it was). But \<^verbatim>\<open>_rotate\<close> has closed the handle before and nothing opens it
  again: every later \<^verbatim>\<open>update\<close> raises \<^verbatim>\<open>ValueError\<close> and writes nothing.
\<close>

theorem failed_seal:
  assumes opened: "fp_open lg"
    and active: "files d (current_file lg) = Some f"
    and due: "rotate_after lg \<le> line_count lg + 1"
    and fail: "zip_io ev \<noteq> ZipWritten"
  shows "\<exists>lg' d'.
           update L ev s v lg d = (Raised OSError, lg', d') \<and>
           files d' = (files d)(current_file lg \<mapsto>
                        f\<lparr>rows := rows f @ [encode L (t_rec ev) s v], mtime := t_write ev\<rparr>) \<and>
           current_file lg' = current_file lg \<and> \<not> fp_open lg' \<and>
           update L ev2 s2 v2 lg' d' = (Raised ValueError, lg', d')"
proof -
  let ?d1 = "write_row d (current_file lg) (encode L (t_rec ev) s v) (t_write ev)"
  let ?lg1 = "lg\<lparr>line_count := line_count lg + 1\<rparr>"
  have f1: "files ?d1 = (files d)(current_file lg \<mapsto>
              f\<lparr>rows := rows f @ [encode L (t_rec ev) s v], mtime := t_write ev\<rparr>)"
    by (simp add: write_row_def active)
  have "needs_rotation L ?lg1 ?d1 (t_age ev) = Inr True"
    using due by (simp add: needs_rotation_def f1 Let_def)
  then have u: "update L ev s v lg d = rotate L ev ?lg1 ?d1"
    by (simp add: update_def opened Let_def)
  from rotate_fails[OF fail, of L ?lg1 ?d1] obtain d' where
    r: "rotate L ev ?lg1 ?d1 = (Raised OSError, ?lg1\<lparr>fp_open := False\<rparr>, d')" and fd: "files d' = files ?d1"
    by blast
  show ?thesis
    by (rule exI[of _ "?lg1\<lparr>fp_open := False\<rparr>"], rule exI[of _ d'])
       (simp add: u r fd f1 update_closed)
qed

theorem failed_seal_witness:
  "fst (update py_lib ((calm (moment 2024 1 1 0 0 2))\<lparr>zip_io := ZipOpenFails\<rparr>) hygro 40
         (fst (snd (run py_lib (take 1 failing_calls) (fst fresh) (snd fresh))))
         (snd (snd (run py_lib (take 1 failing_calls) (fst fresh) (snd fresh))))) = Raised OSError"
proof -
  let ?lg = "fst (snd (run py_lib (take 1 failing_calls) (fst fresh) (snd fresh)))"
  let ?d = "snd (snd (run py_lib (take 1 failing_calls) (fst fresh) (snd fresh)))"
  have a: "fp_open ?lg" by code_simp
  have b: "files ?d (current_file ?lg) =
             Some \<lparr>rows = [fieldnames, [''2024-01-01T00:00:01'', ''T1'', ''21.0'', ''C'']],
                   created = moment 2024 1 1 0 0 0, mtime = moment 2024 1 1 0 0 1\<rparr>"
    by code_simp
  have c: "rotate_after ?lg \<le> line_count ?lg + 1" by code_simp
  have d: "zip_io ((calm (moment 2024 1 1 0 0 2))\<lparr>zip_io := ZipOpenFails\<rparr>) \<noteq> ZipWritten"
    by code_simp
  from failed_seal[OF a b c d, where L = py_lib and s = hygro and v = 40
      and ?ev2.0 = "calm (moment 2024 1 1 0 0 3)" and ?s2.0 = thermo and ?v2.0 = 23]
  obtain lg' d' where
    "update py_lib ((calm (moment 2024 1 1 0 0 2))\<lparr>zip_io := ZipOpenFails\<rparr>) hygro 40 ?lg ?d
       = (Raised OSError, lg', d')"
    by blast
  then show ?thesis by simp
qed

text \<open>
  The claim C6 as it is written fails: after the rotation of the second append has failed,
  the third append raises \<^verbatim>\<open>ValueError\<close> and its row is not in the file.
\<close>

theorem failed_seal_counterexample:
  "fst broken = Raised OSError \<and>
   map_option rows (files (snd (snd broken)) ''sensor_data.csv'') =
     Some [fieldnames, [''2024-01-01T00:00:01'', ''T1'', ''21.0'', ''C''],
           [''2024-01-01T00:00:02'', ''H1'', ''40.0'', ''%'']] \<and>
   fst (update py_lib (calm (moment 2024 1 1 0 0 3)) thermo 23 (fst (snd broken)) (snd (snd broken)))
     = Raised ValueError \<and>
   map_option rows (files (snd (snd (update py_lib (calm (moment 2024 1 1 0 0 3)) thermo 23
        (fst (snd broken)) (snd (snd broken))))) ''sensor_data.csv'') =
     Some [fieldnames, [''2024-01-01T00:00:01'', ''T1'', ''21.0'', ''C''],
           [''2024-01-01T00:00:02'', ''H1'', ''40.0'', ''%'']]"
  by code_simp


section \<open>Appends below and at the row threshold\<close>

lemma update_below:
  assumes "fp_open lg" and "files d (current_file lg) = Some f"
    and "line_count lg + 1 < rotate_after lg"
    and "\<not> isl (timedelta (timedelta_hours (rotate_every lg)))"
    and "t_age ev - t_write ev < timedelta_hours (rotate_every lg)"
    and "st_size L f + int (row_bytes L (encode L (t_rec ev) s v)) < max_size lg * 1024 * 1024"
  shows "update L ev s v lg d =
           (Done, lg\<lparr>line_count := line_count lg + 1\<rparr>,
            d\<lparr>files := (files d)(current_file lg \<mapsto>
                 f\<lparr>rows := rows f @ [encode L (t_rec ev) s v], mtime := t_write ev\<rparr>)\<rparr>)"
proof -
  let ?d1 = "write_row d (current_file lg) (encode L (t_rec ev) s v) (t_write ev)"
  let ?lg1 = "lg\<lparr>line_count := line_count lg + 1\<rparr>"
  let ?f1 = "f\<lparr>rows := rows f @ [encode L (t_rec ev) s v], mtime := t_write ev\<rparr>"
  have d1: "?d1 = d\<lparr>files := (files d)(current_file lg \<mapsto> ?f1)\<rparr>"
    by (simp add: write_row_def assms(2))
  have f1: "files ?d1 (current_file ?lg1) = Some ?f1" by (simp add: d1)
  have ok: "\<not> isl (timedelta (timedelta_hours (rotate_every ?lg1)))" using assms(4) by simp
  have "needs_rotation L ?lg1 ?d1 (t_age ev) = Inr False"
    unfolding needs_rotation_triggers[OF f1 ok] using assms(3,5,6) by (simp add: st_size_def)
  then show ?thesis
    using assms(1) by (simp add: update_def Let_def d1)
qed

lemma run_below:
  assumes "fp_open lg" and "files d (current_file lg) = Some f"
    and "line_count lg + int (length calls) < rotate_after lg"
    and "age_silent lg calls" and "size_silent L lg f calls"
  shows "\<exists>d' f'. run L calls lg d = (Done, lg\<lparr>line_count := line_count lg + int (length calls)\<rparr>, d') \<and>
           files d' = (files d)(current_file lg \<mapsto> f') \<and>
           rows f' = rows f @ map (enc L) calls \<and> created f' = created f \<and>
           archive d' = archive d"
  using assms
proof (induction calls arbitrary: lg d f)
  case Nil
  have "(files d)(current_file lg \<mapsto> f) = files d"
    using Nil.prems(2) by (simp add: fun_upd_idem)
  then show ?case
    by (intro exI[of _ d] exI[of _ f]) simp
next
  case (Cons c calls)
  obtain ev s v where c: "c = (ev, s, v)" by (cases c)
  let ?row = "encode L (t_rec ev) s v"
  let ?f1 = "f\<lparr>rows := rows f @ [?row], mtime := t_write ev\<rparr>"
  let ?lg1 = "lg\<lparr>line_count := line_count lg + 1\<rparr>"
  let ?d1 = "d\<lparr>files := (files d)(current_file lg \<mapsto> ?f1)\<rparr>"
  have age: "t_age ev - t_write ev < timedelta_hours (rotate_every lg)"
    and every: "\<not> isl (timedelta (timedelta_hours (rotate_every lg)))"
    using Cons.prems(4) by (simp_all add: age_silent_def c)
  have size: "st_size L f + int (row_bytes L ?row) < max_size lg * 1024 * 1024"
    using Cons.prems(5) by (simp add: size_silent_def c enc_def)
  have count: "line_count lg + 1 < rotate_after lg" using Cons.prems(3) by simp
  have step: "update L ev s v lg d = (Done, ?lg1, ?d1)"
    by (rule update_below[OF Cons.prems(1,2) count every age size])
  have p1: "fp_open ?lg1" using Cons.prems(1) by simp
  have p2: "files ?d1 (current_file ?lg1) = Some ?f1" by simp
  have p3: "line_count ?lg1 + int (length calls) < rotate_after ?lg1" using Cons.prems(3) by simp
  have p4: "age_silent ?lg1 calls" using Cons.prems(4) by (auto simp: age_silent_def)
  have p5: "size_silent L ?lg1 ?f1 calls"
    using Cons.prems(5) by (simp add: size_silent_def c enc_def st_size_def)
  from Cons.IH[OF p1 p2 p3 p4 p5] obtain d' f' where
    r: "run L calls ?lg1 ?d1 = (Done, ?lg1\<lparr>line_count := line_count ?lg1 + int (length calls)\<rparr>, d')"
    and fs: "files d' = (files ?d1)(current_file ?lg1 \<mapsto> f')"
    and rs: "rows f' = rows ?f1 @ map (enc L) calls" and cr: "created f' = created ?f1"
    and ar: "archive d' = archive ?d1"
    by blast
  have "run L (c # calls) lg d = (Done, lg\<lparr>line_count := line_count lg + int (length (c # calls))\<rparr>, d')"
    using r by (simp add: c step add.assoc add.commute)
  moreover have "files d' = (files d)(current_file lg \<mapsto> f')" using fs by simp
  moreover have "rows f' = rows f @ map (enc L) (c # calls)" using rs by (simp add: c enc_def)
  moreover have "created f' = created f" using cr by simp
  moreover have "archive d' = archive d" using ar by simp
  ultimately show ?case by blast
qed

lemma run_append:
  "run L (xs @ ys) lg d =
     (case run L xs lg d of (Done, lg', d') \<Rightarrow> run L ys lg' d' | (Raised e, lg', d') \<Rightarrow> (Raised e, lg', d'))"
  by (induction xs arbitrary: lg d) (auto split: prod.splits outcome.splits)

lemma run_single: "run L [(ev, s, v)] lg d = update L ev s v lg d"
  by (auto split: prod.splits outcome.splits)

lemma swept_outcome:
  "(case expire_time lg now of
      Inr expire \<Rightarrow> swept L lg now zs = (Done, sweep L expire zs)
    | Inl e \<Rightarrow> swept L lg now zs = (Raised OverflowError, zs))"
  by (auto simp: swept_def expire_time_error split: sum.splits)

lemma reopened_written:
  "files d1 = (files d)(old \<mapsto> f1) \<Longrightarrow> reopened d1 old new t = reopened d old new t"
  by (simp add: reopened_def)

text \<open>
  An append that finds the rotation due and writes the archive: the state it leaves, and
  the outcome the sweep gives it.
\<close>

lemma update_rotating:
  assumes "fp_open lg" and "files d (current_file lg) = Some f"
    and "rotates L ev s v lg d"
    and "zip_io ev = ZipWritten"
    and "map_of (archive d) (archive_name L ev lg) \<noteq> Some Folder"
  shows "update L ev s v lg d =
           (fst (swept L lg (t_sweep ev)
                  (put_entry (archive_name L ev lg)
                     (Zip [(current_file lg, rows f @ [encode L (t_rec ev) s v])]) (archive d))),
            lg\<lparr>line_count := 0, current_file := strftime L (filename_pattern lg) (t_name ev),
               fp_open := True\<rparr>,
            \<lparr>files = reopened d (current_file lg) (strftime L (filename_pattern lg) (t_name ev))
                       (t_create ev),
             archive = snd (swept L lg (t_sweep ev)
                  (put_entry (archive_name L ev lg)
                     (Zip [(current_file lg, rows f @ [encode L (t_rec ev) s v])]) (archive d)))\<rparr>)"
proof -
  let ?d1 = "write_row d (current_file lg) (encode L (t_rec ev) s v) (t_write ev)"
  let ?lg1 = "lg\<lparr>line_count := line_count lg + 1\<rparr>"
  have f1: "files ?d1 = (files d)(current_file lg \<mapsto>
              f\<lparr>rows := rows f @ [encode L (t_rec ev) s v], mtime := t_write ev\<rparr>)"
    and a1: "archive ?d1 = archive d"
    by (simp_all add: write_row_def assms(2))
  have u: "update L ev s v lg d = rotate L ev ?lg1 ?d1"
    using assms(3) by (simp add: update_def assms(1) Let_def rotates_def)
  have e: "expire_time (lg\<lparr>line_count := 0,
              current_file := strftime L (filename_pattern lg) (t_name ev), fp_open := b\<rparr>) now =
           expire_time lg now" for b now
    by (simp add: expire_time_def)
  show ?thesis
    unfolding u using assms(4,5)
    by (auto simp: rotate_def Let_def f1 a1 archive_name_def open_file_def cleanup_archives_def
        reopened_def swept_def e split: option.splits sum.splits)
qed

lemma update_at_threshold:
  assumes "fp_open lg" and "files d (current_file lg) = Some f"
    and "rotate_after lg \<le> line_count lg + 1"
    and "zip_io ev = ZipWritten"
    and "map_of (archive d) (archive_name L ev lg) \<noteq> Some Folder"
  shows "update L ev s v lg d =
           (fst (swept L lg (t_sweep ev)
                  (put_entry (archive_name L ev lg)
                     (Zip [(current_file lg, rows f @ [encode L (t_rec ev) s v])]) (archive d))),
            lg\<lparr>line_count := 0, current_file := strftime L (filename_pattern lg) (t_name ev),
               fp_open := True\<rparr>,
            \<lparr>files = reopened d (current_file lg) (strftime L (filename_pattern lg) (t_name ev))
                       (t_create ev),
             archive = snd (swept L lg (t_sweep ev)
                  (put_entry (archive_name L ev lg)
                     (Zip [(current_file lg, rows f @ [encode L (t_rec ev) s v])]) (archive d)))\<rparr>)"
proof -
  have "files (write_row d (current_file lg) (encode L (t_rec ev) s v) (t_write ev))
          (current_file (lg\<lparr>line_count := line_count lg + 1\<rparr>)) =
        Some (f\<lparr>rows := rows f @ [encode L (t_rec ev) s v], mtime := t_write ev\<rparr>)"
    by (simp add: write_row_def assms(2))
  from needs_rotation_count[OF this] assms(3) have "rotates L ev s v lg d"
    by (simp add: rotates_def)
  from update_rotating[OF assms(1,2) this assms(4,5)] show ?thesis .
qed

text \<open>
  The appends up to the row threshold, from a counter at 0: the last one rotates, and the
  archive holds the rows of the file with those of all the calls.
\<close>

lemma run_to_threshold:
  assumes "fp_open lg" and "line_count lg = 0" and "files d (current_file lg) = Some f"
    and "rotate_after lg = int (length calls) + 1"
    and "age_silent lg calls" and "size_silent L lg f calls"
    and "zip_io ev = ZipWritten"
    and "map_of (archive d) (archive_name L ev lg) \<noteq> Some Folder"
  shows "run L (calls @ [(ev, s, v)]) lg d =
           (fst (swept L lg (t_sweep ev)
                  (put_entry (archive_name L ev lg)
                     (Zip [(current_file lg, rows f @ map (enc L) (calls @ [(ev, s, v)]))])
                     (archive d))),
            lg\<lparr>line_count := 0, current_file := strftime L (filename_pattern lg) (t_name ev),
               fp_open := True\<rparr>,
            \<lparr>files = reopened d (current_file lg) (strftime L (filename_pattern lg) (t_name ev))
                       (t_create ev),
             archive = snd (swept L lg (t_sweep ev)
                  (put_entry (archive_name L ev lg)
                     (Zip [(current_file lg, rows f @ map (enc L) (calls @ [(ev, s, v)]))])
                     (archive d)))\<rparr>)"
proof -
  let ?n = "int (length calls)"
  let ?lg1 = "lg\<lparr>line_count := line_count lg + ?n\<rparr>"
  have below: "line_count lg + ?n < rotate_after lg" using assms(2,4) by simp
  from run_below[OF assms(1,3) below assms(5,6)] obtain d1 f1 where
    r1: "run L calls lg d = (Done, ?lg1, d1)"
    and fs1: "files d1 = (files d)(current_file lg \<mapsto> f1)"
    and rs1: "rows f1 = rows f @ map (enc L) calls"
    and ar1: "archive d1 = archive d"
    by blast
  have p1: "fp_open ?lg1" using assms(1) by simp
  have p2: "files d1 (current_file ?lg1) = Some f1" by (simp add: fs1)
  have p3: "rotate_after ?lg1 \<le> line_count ?lg1 + 1" using assms(2,4) by simp
  have p5: "map_of (archive d1) (archive_name L ev ?lg1) \<noteq> Some Folder"
    using assms(8) by (simp add: ar1 archive_name_def)
  have sw: "swept L ?lg1 now zs = swept L lg now zs" for now zs
    by (simp add: swept_def expire_time_def)
  have ro: "reopened d1 (current_file lg) new t = reopened d (current_file lg) new t" for new t
    by (rule reopened_written[OF fs1])
  have "update L ev s v ?lg1 d1 =
           (fst (swept L lg (t_sweep ev)
                  (put_entry (archive_name L ev lg)
                     (Zip [(current_file lg, rows f @ map (enc L) (calls @ [(ev, s, v)]))])
                     (archive d))),
            lg\<lparr>line_count := 0, current_file := strftime L (filename_pattern lg) (t_name ev),
               fp_open := True\<rparr>,
            \<lparr>files = reopened d (current_file lg) (strftime L (filename_pattern lg) (t_name ev))
                       (t_create ev),
             archive = snd (swept L lg (t_sweep ev)
                  (put_entry (archive_name L ev lg)
                     (Zip [(current_file lg, rows f @ map (enc L) (calls @ [(ev, s, v)]))])
                     (archive d)))\<rparr>)"
    using update_at_threshold[OF p1 p2 p3 assms(7) p5, of s v]
    by (simp add: ar1 archive_name_def sw ro rs1 enc_def)
  then show ?thesis
    by (simp add: run_append r1 run_single del: run.simps)
qed

text \<open>
  C5, as the code has it. \<^verbatim>\<open>update\<close> asks for the rotation after it has written its row.
  With \<^verbatim>\<open>rotate_after_lines = N\<close>, a counter at 0 and the age and size triggers silent,
  the first \<open>N - 1\<close> appends do not rotate, and the \<open>N\<close>-th append writes its row, finds
  the rotation due and seals the active file, its \<open>N\<close> new rows included, into one archive
  entry; the counter is back at 0 and the new active file is open, with the header alone
  when it is new. The call returns when the sweep has computed \<^verbatim>\<open>expire\<close>, and raises
  \<^verbatim>\<open>OverflowError\<close>, the archive written, when it has not. The next append writes its row to
  the new active file: for \<open>N \<ge> 2\<close> it finds no rotation due and makes no archive; for
  \<open>N = 1\<close> it is the next append at the threshold and seals the new file with its row.
\<close>

theorem rotation_by_count:
  assumes "fp_open lg" and "line_count lg = 0" and "files d (current_file lg) = Some f"
    and "rotate_after lg = int (length calls) + 1"
    and "age_silent lg calls" and "size_silent L lg f calls"
    and "zip_io ev = ZipWritten"
    and "map_of (archive d) (archive_name L ev lg) \<noteq> Some Folder"
  shows "\<exists>out lg' d' f'.
           run L (calls @ [(ev, s, v)]) lg d = (out, lg', d') \<and>
           line_count lg' = 0 \<and> fp_open lg' \<and>
           current_file lg' = strftime L (filename_pattern lg) (t_name ev) \<and>
           (case expire_time lg (t_sweep ev) of
              Inr expire \<Rightarrow>
                out = Done \<and>
                archive d' =
                  sweep L expire
                    (put_entry (archive_name L ev lg)
                       (Zip [(current_file lg, rows f @ map (enc L) (calls @ [(ev, s, v)]))])
                       (archive d))
            | Inl e \<Rightarrow>
                out = Raised OverflowError \<and>
                archive d' =
                  put_entry (archive_name L ev lg)
                    (Zip [(current_file lg, rows f @ map (enc L) (calls @ [(ev, s, v)]))])
                    (archive d)) \<and>
           files d' (current_file lg') = Some f' \<and>
           (files d (current_file lg') = None \<or> current_file lg' = current_file lg
              \<longrightarrow> rows f' = [fieldnames]) \<and>
           (calls \<noteq> [] \<and>
            t_age ev2 - t_write ev2 < timedelta_hours (rotate_every lg) \<and>
            st_size L f' + int (row_bytes L (encode L (t_rec ev2) s2 v2)) < max_size lg * 1024 * 1024
              \<longrightarrow> (\<exists>lg'' d''.
                     update L ev2 s2 v2 lg' d' = (Done, lg'', d'') \<and>
                     line_count lg'' = 1 \<and> current_file lg'' = current_file lg' \<and>
                     archive d'' = archive d' \<and>
                     map_option rows (files d'' (current_file lg')) =
                       Some (rows f' @ [encode L (t_rec ev2) s2 v2]))) \<and>
           (calls = [] \<and> zip_io ev2 = ZipWritten \<and>
            map_of (archive d') (archive_name L ev2 lg') \<noteq> Some Folder
              \<longrightarrow> (\<exists>out2 lg'' d''.
                     update L ev2 s2 v2 lg' d' = (out2, lg'', d'') \<and>
                     line_count lg'' = 0 \<and>
                     (case expire_time lg (t_sweep ev2) of
                        Inr expire \<Rightarrow>
                          out2 = Done \<and>
                          archive d'' =
                            sweep L expire
                              (put_entry (archive_name L ev2 lg')
                                 (Zip [(current_file lg', rows f' @ [encode L (t_rec ev2) s2 v2])])
                                 (archive d'))
                      | Inl e \<Rightarrow>
                          out2 = Raised OverflowError \<and>
                          archive d'' =
                            put_entry (archive_name L ev2 lg')
                              (Zip [(current_file lg', rows f' @ [encode L (t_rec ev2) s2 v2])])
                              (archive d'))))"
proof -
  let ?new = "strftime L (filename_pattern lg) (t_name ev)"
  let ?A = "put_entry (archive_name L ev lg)
              (Zip [(current_file lg, rows f @ map (enc L) (calls @ [(ev, s, v)]))]) (archive d)"
  let ?out = "fst (swept L lg (t_sweep ev) ?A)"
  let ?lg' = "lg\<lparr>line_count := 0, current_file := ?new, fp_open := True\<rparr>"
  let ?d' = "\<lparr>files = reopened d (current_file lg) ?new (t_create ev),
             archive = snd (swept L lg (t_sweep ev) ?A)\<rparr>"
  have whole: "run L (calls @ [(ev, s, v)]) lg d = (?out, ?lg', ?d')"
    by (rule run_to_threshold[OF assms])
  obtain f' where f': "files ?d' ?new = Some f'"
    by (cases "((files d)(current_file lg := None)) ?new") (auto simp: reopened_def Let_def)
  have hdr: "rows f' = [fieldnames]"
    if "files d ?new = None \<or> ?new = current_file lg"
    using that f' by (auto simp: reopened_def Let_def split: if_splits)
  have arch: "(case expire_time lg (t_sweep ev) of
              Inr expire \<Rightarrow> ?out = Done \<and> archive ?d' = sweep L expire ?A
            | Inl e \<Rightarrow> ?out = Raised OverflowError \<and> archive ?d' = ?A)"
    using swept_outcome[where lg = lg and now = "t_sweep ev" and L = L and zs = ?A] by (auto split: sum.splits)
  have q1: "fp_open ?lg'" by simp
  have q2: "files ?d' (current_file ?lg') = Some f'" using f' by simp
  have next_call: "\<exists>lg'' d''.
         update L ev2 s2 v2 ?lg' ?d' = (Done, lg'', d'') \<and>
         line_count lg'' = 1 \<and> current_file lg'' = current_file ?lg' \<and>
         archive d'' = archive ?d' \<and>
         map_option rows (files d'' (current_file ?lg')) =
           Some (rows f' @ [encode L (t_rec ev2) s2 v2])"
    if "calls \<noteq> []"
      and "t_age ev2 - t_write ev2 < timedelta_hours (rotate_every lg)"
      and "st_size L f' + int (row_bytes L (encode L (t_rec ev2) s2 v2)) < max_size lg * 1024 * 1024"
  proof -
    have q3: "line_count ?lg' + 1 < rotate_after ?lg'"
      using assms(4) that(1) by (cases calls) simp_all
    have q4: "\<not> isl (timedelta (timedelta_hours (rotate_every ?lg')))"
      using assms(5) that(1) by (cases calls) (auto simp: age_silent_def)
    have q5: "t_age ev2 - t_write ev2 < timedelta_hours (rotate_every ?lg')" using that(2) by simp
    have q6: "st_size L f' + int (row_bytes L (encode L (t_rec ev2) s2 v2))
                < max_size ?lg' * 1024 * 1024" using that(3) by simp
    show ?thesis
      unfolding update_below[OF q1 q2 q3 q4 q5 q6] by simp
  qed
  have again: "\<exists>out2 lg'' d''.
         update L ev2 s2 v2 ?lg' ?d' = (out2, lg'', d'') \<and>
         line_count lg'' = 0 \<and>
         (case expire_time lg (t_sweep ev2) of
            Inr expire \<Rightarrow>
              out2 = Done \<and>
              archive d'' =
                sweep L expire
                  (put_entry (archive_name L ev2 ?lg')
                     (Zip [(current_file ?lg', rows f' @ [encode L (t_rec ev2) s2 v2])])
                     (archive ?d'))
          | Inl e \<Rightarrow>
              out2 = Raised OverflowError \<and>
              archive d'' =
                put_entry (archive_name L ev2 ?lg')
                  (Zip [(current_file ?lg', rows f' @ [encode L (t_rec ev2) s2 v2])])
                  (archive ?d'))"
    if "calls = []" and "zip_io ev2 = ZipWritten"
      and "map_of (archive ?d') (archive_name L ev2 ?lg') \<noteq> Some Folder"
  proof -
    have q3: "rotate_after ?lg' \<le> line_count ?lg' + 1" using assms(4) that(1) by simp
    have sw: "swept L ?lg' now zs = swept L lg now zs" for now zs
      by (simp add: swept_def expire_time_def)
    let ?B = "put_entry (archive_name L ev2 ?lg')
                (Zip [(current_file ?lg', rows f' @ [encode L (t_rec ev2) s2 v2])]) (archive ?d')"
    have "(case expire_time lg (t_sweep ev2) of
            Inr expire \<Rightarrow> fst (swept L lg (t_sweep ev2) ?B) = Done \<and>
                           snd (swept L lg (t_sweep ev2) ?B) = sweep L expire ?B
          | Inl e \<Rightarrow> fst (swept L lg (t_sweep ev2) ?B) = Raised OverflowError \<and>
                      snd (swept L lg (t_sweep ev2) ?B) = ?B)"
      using swept_outcome[where lg = lg and now = "t_sweep ev2" and L = L and zs = ?B] by (auto split: sum.splits)
    then show ?thesis
      unfolding update_at_threshold[OF q1 q2 q3 that(2,3), of s2 v2] sw
      by (auto split: sum.splits)
  qed
  have c2: "line_count ?lg' = 0" and c3: "fp_open ?lg'"
    and c4: "current_file ?lg' = ?new"
    by simp_all
  have c7: "files d (current_file ?lg') = None \<or> current_file ?lg' = current_file lg
              \<longrightarrow> rows f' = [fieldnames]"
    using hdr by simp
  have c8: "calls \<noteq> [] \<and>
            t_age ev2 - t_write ev2 < timedelta_hours (rotate_every lg) \<and>
            st_size L f' + int (row_bytes L (encode L (t_rec ev2) s2 v2)) < max_size lg * 1024 * 1024
              \<longrightarrow> (\<exists>lg'' d''.
                     update L ev2 s2 v2 ?lg' ?d' = (Done, lg'', d'') \<and>
                     line_count lg'' = 1 \<and> current_file lg'' = current_file ?lg' \<and>
                     archive d'' = archive ?d' \<and>
                     map_option rows (files d'' (current_file ?lg')) =
                       Some (rows f' @ [encode L (t_rec ev2) s2 v2]))"
    using next_call by blast
  have c9: "calls = [] \<and> zip_io ev2 = ZipWritten \<and>
            map_of (archive ?d') (archive_name L ev2 ?lg') \<noteq> Some Folder
              \<longrightarrow> (\<exists>out2 lg'' d''.
                     update L ev2 s2 v2 ?lg' ?d' = (out2, lg'', d'') \<and>
                     line_count lg'' = 0 \<and>
                     (case expire_time lg (t_sweep ev2) of
                        Inr expire \<Rightarrow>
                          out2 = Done \<and>
                          archive d'' =
                            sweep L expire
                              (put_entry (archive_name L ev2 ?lg')
                                 (Zip [(current_file ?lg', rows f' @ [encode L (t_rec ev2) s2 v2])])
                                 (archive ?d'))
                      | Inl e \<Rightarrow>
                          out2 = Raised OverflowError \<and>
                          archive d'' =
                            put_entry (archive_name L ev2 ?lg')
                              (Zip [(current_file ?lg', rows f' @ [encode L (t_rec ev2) s2 v2])])
                              (archive ?d')))"
    using again by blast
  show ?thesis
    apply (rule exI[of _ ?out], rule exI[of _ ?lg'], rule exI[of _ ?d'], rule exI[of _ f'])
    apply (intro conjI)
            apply (rule whole)
           apply (rule c2)
          apply (rule c3)
         apply (rule c4)
        apply (rule arch)
       apply (rule q2)
      apply (rule c7)
     apply (rule c8)
    apply (rule c9)
    done
qed

theorem rotation_by_count_witness:
  "(\<exists>lg' d'. run py_lib (take 2 three_calls) (fst fresh) (snd fresh) = (Done, lg', d') \<and>
       line_count lg' = 0 \<and> fp_open lg' \<and>
       archive d' =
         [(''sensor_data.csv.20240101000002.zip'',
           Zip [(''sensor_data.csv'',
                 [fieldnames, [''2024-01-01T00:00:01'', ''T1'', ''21.0'', ''C''],
                  [''2024-01-01T00:00:02'', ''H1'', ''40.0'', ''%'']])])] \<and>
       (\<exists>lg'' d''. update py_lib (calm (moment 2024 1 1 0 0 3)) thermo 23 lg' d' = (Done, lg'', d'') \<and>
          line_count lg'' = 1 \<and> archive d'' = archive d' \<and>
          map_option rows (files d'' (current_file lg')) =
            Some [fieldnames, [''2024-01-01T00:00:03'', ''T1'', ''23.0'', ''C'']])) \<and>
   (\<exists>lg' d'. update py_lib (calm (moment 2024 1 1 12 0 0)) thermo 21 (fst brief) (snd brief) =
                (Done, lg', d') \<and>
       line_count lg' = 0 \<and> fp_open lg' \<and>
       archive d' =
         [(''sensor_data.csv.20240101120000.zip'',
           Zip [(''sensor_data.csv'',
                 [fieldnames, [''2024-01-01T12:00:00'', ''T1'', ''21.0'', ''C'']])])] \<and>
       (\<exists>lg'' d''. update py_lib (calm (moment 2024 1 1 12 0 1)) hygro 40 lg' d' = (Done, lg'', d'') \<and>
          line_count lg'' = 0 \<and>
          archive d'' =
            [(''sensor_data.csv.20240101120000.zip'',
              Zip [(''sensor_data.csv'',
                    [fieldnames, [''2024-01-01T12:00:00'', ''T1'', ''21.0'', ''C'']])]),
             (''sensor_data.csv.20240101120001.zip'',
              Zip [(''sensor_data.csv'',
                    [fieldnames, [''2024-01-01T12:00:01'', ''H1'', ''40.0'', ''%'']])])]))"
proof (rule conjI)
  let ?c1 = "(calm (moment 2024 1 1 0 0 1), thermo, 21::int)"
  let ?ev = "calm (moment 2024 1 1 0 0 2)"
  let ?ev2 = "calm (moment 2024 1 1 0 0 3)"
  let ?f = "\<lparr>rows = [fieldnames], created = moment 2024 1 1 0 0 0, mtime = moment 2024 1 1 0 0 0\<rparr>"
  let ?A = "put_entry (archive_name py_lib ?ev (fst fresh))
              (Zip [(current_file (fst fresh), rows ?f @ map (enc py_lib) ([?c1] @ [(?ev, hygro, 40)]))])
              (archive (snd fresh))"
  define x where "x = projr (expire_time (fst fresh) (t_sweep ?ev))"
  have a: "fp_open (fst fresh)" by code_simp
  have b: "line_count (fst fresh) = 0" by code_simp
  have c: "files (snd fresh) (current_file (fst fresh)) = Some ?f" by code_simp
  have d: "rotate_after (fst fresh) = int (length [?c1]) + 1" by code_simp
  have e: "age_silent (fst fresh) [?c1]" by code_simp
  have f: "size_silent py_lib (fst fresh) ?f [?c1]" by code_simp
  have g: "zip_io ?ev = ZipWritten" by code_simp
  have h: "map_of (archive (snd fresh)) (archive_name py_lib ?ev (fst fresh)) \<noteq> Some Folder"
    by code_simp
  have calls: "take 2 three_calls = [?c1] @ [(?ev, hygro, 40)]" by code_simp
  have ex: "expire_time (fst fresh) (t_sweep ?ev) = Inr x" unfolding x_def by code_simp
  have arch: "sweep py_lib x ?A =
              [(''sensor_data.csv.20240101000002.zip'',
                Zip [(''sensor_data.csv'',
                      [fieldnames, [''2024-01-01T00:00:01'', ''T1'', ''21.0'', ''C''],
                       [''2024-01-01T00:00:02'', ''H1'', ''40.0'', ''%'']])])]"
    unfolding x_def by code_simp
  have nm: "strftime py_lib (filename_pattern (fst fresh)) (t_name ?ev) = current_file (fst fresh)"
    by code_simp
  have ne: "[?c1] \<noteq> []" by simp
  have age: "t_age ?ev2 - t_write ?ev2 < timedelta_hours (rotate_every (fst fresh))" by code_simp
  have sz0: "int (sum_list (map (row_bytes py_lib) [fieldnames])) +
             int (row_bytes py_lib (encode py_lib (t_rec ?ev2) thermo (23::int)))
               < max_size (fst fresh) * 1024 * 1024"
    by code_simp
  have row3: "[fieldnames] @ [encode py_lib (t_rec ?ev2) thermo (23::int)] =
              [fieldnames, [''2024-01-01T00:00:03'', ''T1'', ''23.0'', ''C'']]"
    by code_simp
  from rotation_by_count[OF a b c d e f g h, where s = hygro and v = 40
      and ?ev2.0 = ?ev2 and ?s2.0 = thermo and ?v2.0 = 23]
  obtain out lg' d' f' where
    r: "run py_lib ([?c1] @ [(?ev, hygro, 40)]) (fst fresh) (snd fresh) = (out, lg', d')"
    and lc: "line_count lg' = 0" and op: "fp_open lg'"
    and cf: "current_file lg' = strftime py_lib (filename_pattern (fst fresh)) (t_name ?ev)"
    and ar: "(case expire_time (fst fresh) (t_sweep ?ev) of
                Inr expire \<Rightarrow> out = Done \<and> archive d' = sweep py_lib expire ?A
              | Inl e \<Rightarrow> out = Raised OverflowError \<and> archive d' = ?A)"
    and fl: "files d' (current_file lg') = Some f'"
    and hdr: "files (snd fresh) (current_file lg') = None \<or> current_file lg' = current_file (fst fresh)
                \<longrightarrow> rows f' = [fieldnames]"
    and nx: "[?c1] \<noteq> [] \<and>
             t_age ?ev2 - t_write ?ev2 < timedelta_hours (rotate_every (fst fresh)) \<and>
             st_size py_lib f' + int (row_bytes py_lib (encode py_lib (t_rec ?ev2) thermo 23))
               < max_size (fst fresh) * 1024 * 1024
               \<longrightarrow> (\<exists>lg'' d''.
                     update py_lib ?ev2 thermo 23 lg' d' = (Done, lg'', d'') \<and>
                     line_count lg'' = 1 \<and> current_file lg'' = current_file lg' \<and>
                     archive d'' = archive d' \<and>
                     map_option rows (files d'' (current_file lg')) =
                       Some (rows f' @ [encode py_lib (t_rec ?ev2) thermo 23]))"
    by blast
  have out: "out = Done" and ad: "archive d' = sweep py_lib x ?A"
    using ar unfolding ex by simp_all
  have r0: "run py_lib ([?c1] @ [(?ev, hygro, 40)]) (fst fresh) (snd fresh) = (Done, lg', d')"
    using r unfolding out .
  have ad': "archive d' =
              [(''sensor_data.csv.20240101000002.zip'',
                Zip [(''sensor_data.csv'',
                      [fieldnames, [''2024-01-01T00:00:01'', ''T1'', ''21.0'', ''C''],
                       [''2024-01-01T00:00:02'', ''H1'', ''40.0'', ''%'']])])]"
    using ad unfolding arch .
  have rf: "rows f' = [fieldnames]" using hdr cf nm by simp
  have sz: "st_size py_lib f' + int (row_bytes py_lib (encode py_lib (t_rec ?ev2) thermo 23))
               < max_size (fst fresh) * 1024 * 1024"
    unfolding st_size_def rf by (rule sz0)
  from nx ne age sz obtain lg'' d'' where
    u: "update py_lib ?ev2 thermo 23 lg' d' = (Done, lg'', d'')"
    and lc2: "line_count lg'' = 1" and ad2: "archive d'' = archive d'"
    and rs: "map_option rows (files d'' (current_file lg')) =
               Some (rows f' @ [encode py_lib (t_rec ?ev2) thermo 23])"
    by blast
  have rs': "map_option rows (files d'' (current_file lg')) =
               Some [fieldnames, [''2024-01-01T00:00:03'', ''T1'', ''23.0'', ''C'']]"
    using rs unfolding rf row3 .
  show "\<exists>lg' d'. run py_lib (take 2 three_calls) (fst fresh) (snd fresh) = (Done, lg', d') \<and>
       line_count lg' = 0 \<and> fp_open lg' \<and>
       archive d' =
         [(''sensor_data.csv.20240101000002.zip'',
           Zip [(''sensor_data.csv'',
                 [fieldnames, [''2024-01-01T00:00:01'', ''T1'', ''21.0'', ''C''],
                  [''2024-01-01T00:00:02'', ''H1'', ''40.0'', ''%'']])])] \<and>
       (\<exists>lg'' d''. update py_lib ?ev2 thermo 23 lg' d' = (Done, lg'', d'') \<and>
          line_count lg'' = 1 \<and> archive d'' = archive d' \<and>
          map_option rows (files d'' (current_file lg')) =
            Some [fieldnames, [''2024-01-01T00:00:03'', ''T1'', ''23.0'', ''C'']])"
    unfolding calls using r0 lc op ad' u lc2 ad2 rs' by blast
next
  let ?ev = "calm (moment 2024 1 1 12 0 0)"
  let ?ev2 = "calm (moment 2024 1 1 12 0 1)"
  let ?f = "\<lparr>rows = [fieldnames], created = moment 2024 1 1 0 0 0, mtime = moment 2024 1 1 0 0 0\<rparr>"
  let ?none = "[] :: int call list"
  let ?A = "put_entry (archive_name py_lib ?ev (fst brief))
              (Zip [(current_file (fst brief),
                     rows ?f @ map (enc py_lib) (?none @ [(?ev, thermo, 21)]))])
              (archive (snd brief))"
  let ?one = "[(''sensor_data.csv.20240101120000.zip'',
                Zip [(''sensor_data.csv'',
                      [fieldnames, [''2024-01-01T12:00:00'', ''T1'', ''21.0'', ''C'']])])]"
  define x where "x = projr (expire_time (fst brief) (t_sweep ?ev))"
  define y where "y = projr (expire_time (fst brief) (t_sweep ?ev2))"
  have a: "fp_open (fst brief)" by code_simp
  have b: "line_count (fst brief) = 0" by code_simp
  have c: "files (snd brief) (current_file (fst brief)) = Some ?f" by code_simp
  have d: "rotate_after (fst brief) = int (length ?none) + 1" by code_simp
  have e: "age_silent (fst brief) ?none" by code_simp
  have f: "size_silent py_lib (fst brief) ?f ?none" by code_simp
  have g: "zip_io ?ev = ZipWritten" by code_simp
  have h: "map_of (archive (snd brief)) (archive_name py_lib ?ev (fst brief)) \<noteq> Some Folder"
    by code_simp
  have ex: "expire_time (fst brief) (t_sweep ?ev) = Inr x" unfolding x_def by code_simp
  have ey: "expire_time (fst brief) (t_sweep ?ev2) = Inr y" unfolding y_def by code_simp
  have arch: "sweep py_lib x ?A = ?one"
    unfolding x_def by code_simp
  have nm: "strftime py_lib (filename_pattern (fst brief)) (t_name ?ev) = ''sensor_data.csv''"
    by code_simp
  have cur: "current_file (fst brief) = ''sensor_data.csv''" by code_simp
  have g2: "zip_io ?ev2 = ZipWritten" by code_simp
  have an: "''sensor_data.csv'' @ ''.'' @ strftime py_lib stamp_format (t_seal ?ev2) @ ''.zip'' =
            ''sensor_data.csv.20240101120001.zip''"
    by code_simp
  have h2: "map_of ?one ''sensor_data.csv.20240101120001.zip'' \<noteq> Some Folder" by code_simp
  have arch2: "sweep py_lib y
                 (put_entry ''sensor_data.csv.20240101120001.zip''
                    (Zip [(''sensor_data.csv'',
                           [fieldnames] @ [encode py_lib (t_rec ?ev2) hygro (40::int)])]) ?one) =
               [(''sensor_data.csv.20240101120000.zip'',
                 Zip [(''sensor_data.csv'',
                       [fieldnames, [''2024-01-01T12:00:00'', ''T1'', ''21.0'', ''C'']])]),
                (''sensor_data.csv.20240101120001.zip'',
                 Zip [(''sensor_data.csv'',
                       [fieldnames, [''2024-01-01T12:00:01'', ''H1'', ''40.0'', ''%'']])])]"
    unfolding y_def by code_simp
  from rotation_by_count[OF a b c d e f g h, where s = thermo and v = 21
      and ?ev2.0 = ?ev2 and ?s2.0 = hygro and ?v2.0 = 40]
  obtain out lg' d' f' where
    r: "run py_lib (?none @ [(?ev, thermo, 21)]) (fst brief) (snd brief) = (out, lg', d')"
    and lc: "line_count lg' = 0" and op: "fp_open lg'"
    and cf: "current_file lg' = strftime py_lib (filename_pattern (fst brief)) (t_name ?ev)"
    and ar: "(case expire_time (fst brief) (t_sweep ?ev) of
                Inr expire \<Rightarrow> out = Done \<and> archive d' = sweep py_lib expire ?A
              | Inl e \<Rightarrow> out = Raised OverflowError \<and> archive d' = ?A)"
    and fl: "files d' (current_file lg') = Some f'"
    and hdr: "files (snd brief) (current_file lg') = None \<or> current_file lg' = current_file (fst brief)
                \<longrightarrow> rows f' = [fieldnames]"
    and nx: "?none = [] \<and> zip_io ?ev2 = ZipWritten \<and>
             map_of (archive d') (archive_name py_lib ?ev2 lg') \<noteq> Some Folder
               \<longrightarrow> (\<exists>out2 lg'' d''.
                     update py_lib ?ev2 hygro 40 lg' d' = (out2, lg'', d'') \<and>
                     line_count lg'' = 0 \<and>
                     (case expire_time (fst brief) (t_sweep ?ev2) of
                        Inr expire \<Rightarrow>
                          out2 = Done \<and>
                          archive d'' =
                            sweep py_lib expire
                              (put_entry (archive_name py_lib ?ev2 lg')
                                 (Zip [(current_file lg', rows f' @ [encode py_lib (t_rec ?ev2) hygro 40])])
                                 (archive d'))
                      | Inl e \<Rightarrow>
                          out2 = Raised OverflowError \<and>
                          archive d'' =
                            put_entry (archive_name py_lib ?ev2 lg')
                              (Zip [(current_file lg', rows f' @ [encode py_lib (t_rec ?ev2) hygro 40])])
                              (archive d')))"
    by blast
  have out: "out = Done" and ad0: "archive d' = sweep py_lib x ?A"
    using ar unfolding ex by simp_all
  have ad: "archive d' = ?one"
    using ad0 unfolding arch .
  have cf': "current_file lg' = ''sensor_data.csv''" using cf nm by simp
  have rf: "rows f' = [fieldnames]" using hdr cf' cur by simp
  have an': "archive_name py_lib ?ev2 lg' = ''sensor_data.csv.20240101120001.zip''"
    unfolding archive_name_def cf' by (rule an)
  have h2': "map_of (archive d') (archive_name py_lib ?ev2 lg') \<noteq> Some Folder"
    unfolding ad an' by (rule h2)
  from nx g2 h2' obtain out2 lg'' d'' where
    u: "update py_lib ?ev2 hygro 40 lg' d' = (out2, lg'', d'')"
    and lc2: "line_count lg'' = 0"
    and ar2: "(case expire_time (fst brief) (t_sweep ?ev2) of
                 Inr expire \<Rightarrow>
                   out2 = Done \<and>
                   archive d'' =
                     sweep py_lib expire
                       (put_entry (archive_name py_lib ?ev2 lg')
                          (Zip [(current_file lg', rows f' @ [encode py_lib (t_rec ?ev2) hygro 40])])
                          (archive d'))
               | Inl e \<Rightarrow>
                   out2 = Raised OverflowError \<and>
                   archive d'' =
                     put_entry (archive_name py_lib ?ev2 lg')
                       (Zip [(current_file lg', rows f' @ [encode py_lib (t_rec ?ev2) hygro 40])])
                       (archive d'))"
    by blast
  have out2: "out2 = Done"
    and ad2_0: "archive d'' =
                 sweep py_lib y
                   (put_entry (archive_name py_lib ?ev2 lg')
                      (Zip [(current_file lg', rows f' @ [encode py_lib (t_rec ?ev2) hygro 40])])
                      (archive d'))"
    using ar2 unfolding ey by (simp_all only: sum.case)
  have ad2: "archive d'' =
               [(''sensor_data.csv.20240101120000.zip'',
                 Zip [(''sensor_data.csv'',
                       [fieldnames, [''2024-01-01T12:00:00'', ''T1'', ''21.0'', ''C'']])]),
                (''sensor_data.csv.20240101120001.zip'',
                 Zip [(''sensor_data.csv'',
                       [fieldnames, [''2024-01-01T12:00:01'', ''H1'', ''40.0'', ''%'']])])]"
    using ad2_0 unfolding an' cf' rf ad arch2 .
  have r': "update py_lib ?ev thermo 21 (fst brief) (snd brief) = (Done, lg', d')"
    using r unfolding out by (simp add: run_single del: run.simps)
  have u': "update py_lib ?ev2 hygro 40 lg' d' = (Done, lg'', d'')"
    using u unfolding out2 .
  show "\<exists>lg' d'. update py_lib ?ev thermo 21 (fst brief) (snd brief) = (Done, lg', d') \<and>
       line_count lg' = 0 \<and> fp_open lg' \<and>
       archive d' = ?one \<and>
       (\<exists>lg'' d''. update py_lib ?ev2 hygro 40 lg' d' = (Done, lg'', d'') \<and>
          line_count lg'' = 0 \<and>
          archive d'' =
            [(''sensor_data.csv.20240101120000.zip'',
              Zip [(''sensor_data.csv'',
                    [fieldnames, [''2024-01-01T12:00:00'', ''T1'', ''21.0'', ''C'']])]),
             (''sensor_data.csv.20240101120001.zip'',
              Zip [(''sensor_data.csv'',
                    [fieldnames, [''2024-01-01T12:00:01'', ''H1'', ''40.0'', ''%'']])])])"
    using r' lc op ad u' lc2 ad2 by blast
qed

text \<open>
  With a retention of a million days the second of two appends writes the archive and
  raises \<^verbatim>\<open>OverflowError\<close> from the sweep: \<^verbatim>\<open>expire\<close> would lie before the year 1.
\<close>

lemma rotation_overflow_sample:
  "fst everlasting = Raised OverflowError \<and>
   line_count (fst (snd everlasting)) = 0 \<and>
   map fst (archive (snd (snd everlasting))) = [''sensor_data.csv.20240101000002.zip'']"
  by code_simp

text \<open>
  The claim C5 as it is written fails for \<^verbatim>\<open>rotate_after_lines = 2\<close>: the one archive is
  there after the second append; the third append finds no rotation due and adds no
  archive, and its row stays in the active file.
\<close>

theorem rotation_by_count_counterexample:
  "rotate_after (fst after_two) = 2 \<and>
   length (archive (snd after_two)) = 1 \<and>
   archive (snd after_three) = archive (snd after_two) \<and>
   needs_rotation py_lib (fst after_three) (snd after_three) (moment 2024 1 1 0 0 3) = Inr False \<and>
   map_option rows (files (snd after_three) (current_file (fst after_three))) =
     Some [fieldnames, [''2024-01-01T00:00:03'', ''T1'', ''23.0'', ''C'']]"
  by code_simp

section \<open>The row counter of a new logger\<close>

text \<open>
  C10. \<^verbatim>\<open>__init__\<close> sets the counter to 0 whatever the log directory holds. When the file
  of the pattern is there already it is opened for appending and the disk is left as it
  is: no header is written. The row trigger then counts the appends of this logger only,
  however many rows the file held before: as long as fewer than \<^verbatim>\<open>rotate_after_lines\<close>
  rows are appended (and the age and size triggers are silent) no rotation is made, and
  the append that brings the count of this logger's rows to \<^verbatim>\<open>rotate_after_lines\<close> rotates:
  the counter is back at 0 and the archive holds the rows the file held before with the
  rows appended. That call returns when the sweep has computed \<^verbatim>\<open>expire\<close> and raises
  \<^verbatim>\<open>OverflowError\<close>, the archive written, when it has not.
\<close>

theorem init_counts_from_zero:
  "(case init L cfg d now t of
      (lg, d') \<Rightarrow>
        line_count lg = 0 \<and> fp_open lg \<and>
        current_file lg = strftime L (cfg_filename_pattern cfg) now \<and>
        rotate_after lg = cfg_rotate_after_lines cfg \<and>
        (\<forall>f. files d (current_file lg) = Some f \<longrightarrow>
           d' = d \<and>
           (\<forall>calls. int (length calls) < rotate_after lg \<and> age_silent lg calls \<and>
                    size_silent L lg f calls \<longrightarrow>
              (\<exists>lg2 d2 f2. run L calls lg d' = (Done, lg2, d2) \<and>
                 line_count lg2 = int (length calls) \<and> archive d2 = archive d \<and>
                 files d2 (current_file lg) = Some f2 \<and>
                 rows f2 = rows f @ map (enc L) calls)) \<and>
           (\<forall>calls ev s v.
              int (length calls) + 1 = rotate_after lg \<and> age_silent lg calls \<and>
              size_silent L lg f calls \<and> zip_io ev = ZipWritten \<and>
              map_of (archive d) (archive_name L ev lg) \<noteq> Some Folder \<longrightarrow>
              (\<exists>out lg2 d2. run L (calls @ [(ev, s, v)]) lg d' = (out, lg2, d2) \<and>
                 line_count lg2 = 0 \<and>
                 (case expire_time lg (t_sweep ev) of
                    Inr expire \<Rightarrow>
                      out = Done \<and>
                      archive d2 =
                        sweep L expire
                          (put_entry (archive_name L ev lg)
                             (Zip [(current_file lg, rows f @ map (enc L) (calls @ [(ev, s, v)]))])
                             (archive d))
                  | Inl e \<Rightarrow>
                      out = Raised OverflowError \<and>
                      archive d2 =
                        put_entry (archive_name L ev lg)
                          (Zip [(current_file lg, rows f @ map (enc L) (calls @ [(ev, s, v)]))])
                          (archive d))))))"
proof -
  obtain lg d' where i: "init L cfg d now t = (lg, d')" by (cases "init L cfg d now t")
  have basics: "line_count lg = 0" "fp_open lg"
    "current_file lg = strftime L (cfg_filename_pattern cfg) now"
    "rotate_after lg = cfg_rotate_after_lines cfg"
    using i by (auto simp: init_def open_file_def Let_def split: if_splits)
  have rest: "d' = d \<and>
           (\<forall>calls. int (length calls) < rotate_after lg \<and> age_silent lg calls \<and>
                    size_silent L lg f calls \<longrightarrow>
              (\<exists>lg2 d2 f2. run L calls lg d' = (Done, lg2, d2) \<and>
                 line_count lg2 = int (length calls) \<and> archive d2 = archive d \<and>
                 files d2 (current_file lg) = Some f2 \<and>
                 rows f2 = rows f @ map (enc L) calls)) \<and>
           (\<forall>calls ev s v.
              int (length calls) + 1 = rotate_after lg \<and> age_silent lg calls \<and>
              size_silent L lg f calls \<and> zip_io ev = ZipWritten \<and>
              map_of (archive d) (archive_name L ev lg) \<noteq> Some Folder \<longrightarrow>
              (\<exists>out lg2 d2. run L (calls @ [(ev, s, v)]) lg d' = (out, lg2, d2) \<and>
                 line_count lg2 = 0 \<and>
                 (case expire_time lg (t_sweep ev) of
                    Inr expire \<Rightarrow>
                      out = Done \<and>
                      archive d2 =
                        sweep L expire
                          (put_entry (archive_name L ev lg)
                             (Zip [(current_file lg, rows f @ map (enc L) (calls @ [(ev, s, v)]))])
                             (archive d))
                  | Inl e \<Rightarrow>
                      out = Raised OverflowError \<and>
                      archive d2 =
                        put_entry (archive_name L ev lg)
                          (Zip [(current_file lg, rows f @ map (enc L) (calls @ [(ev, s, v)]))])
                          (archive d))))"
    if f: "files d (current_file lg) = Some f" for f
  proof -
    have same: "d' = d"
      using i f basics(3) by (auto simp: init_def open_file_def Let_def split: if_splits)
    have quiet: "\<exists>lg2 d2 f2. run L calls lg d' = (Done, lg2, d2) \<and>
                 line_count lg2 = int (length calls) \<and> archive d2 = archive d \<and>
                 files d2 (current_file lg) = Some f2 \<and>
                 rows f2 = rows f @ map (enc L) calls"
      if c: "int (length calls) < rotate_after lg" "age_silent lg calls" "size_silent L lg f calls"
      for calls
    proof -
      have below: "line_count lg + int (length calls) < rotate_after lg"
        using c(1) basics(1) by simp
      from run_below[OF basics(2) f below c(2,3)] obtain d2 f2 where
        "run L calls lg d = (Done, lg\<lparr>line_count := line_count lg + int (length calls)\<rparr>, d2)"
        "files d2 = (files d)(current_file lg \<mapsto> f2)"
        "rows f2 = rows f @ map (enc L) calls" "archive d2 = archive d"
        by blast
      then show ?thesis
        using basics(1) same by auto
    qed
    have due: "\<exists>out lg2 d2. run L (calls @ [(ev, s, v)]) lg d' = (out, lg2, d2) \<and>
                 line_count lg2 = 0 \<and>
                 (case expire_time lg (t_sweep ev) of
                    Inr expire \<Rightarrow>
                      out = Done \<and>
                      archive d2 =
                        sweep L expire
                          (put_entry (archive_name L ev lg)
                             (Zip [(current_file lg, rows f @ map (enc L) (calls @ [(ev, s, v)]))])
                             (archive d))
                  | Inl e \<Rightarrow>
                      out = Raised OverflowError \<and>
                      archive d2 =
                        put_entry (archive_name L ev lg)
                          (Zip [(current_file lg, rows f @ map (enc L) (calls @ [(ev, s, v)]))])
                          (archive d))"
      if c: "int (length calls) + 1 = rotate_after lg" "age_silent lg calls"
        "size_silent L lg f calls" "zip_io ev = ZipWritten"
        "map_of (archive d) (archive_name L ev lg) \<noteq> Some Folder"
      for calls ev s v
    proof -
      let ?A = "put_entry (archive_name L ev lg)
                  (Zip [(current_file lg, rows f @ map (enc L) (calls @ [(ev, s, v)]))]) (archive d)"
      let ?out = "fst (swept L lg (t_sweep ev) ?A)"
      let ?lg2 = "lg\<lparr>line_count := 0, current_file := strftime L (filename_pattern lg) (t_name ev),
                     fp_open := True\<rparr>"
      let ?d2 = "\<lparr>files = reopened d (current_file lg)
                          (strftime L (filename_pattern lg) (t_name ev)) (t_create ev),
                 archive = snd (swept L lg (t_sweep ev) ?A)\<rparr>"
      have n: "rotate_after lg = int (length calls) + 1" using c(1) by simp
      have whole: "run L (calls @ [(ev, s, v)]) lg d' = (?out, ?lg2, ?d2)"
        unfolding same by (rule run_to_threshold[OF basics(2,1) f n c(2,3,4,5)])
      have zero: "line_count ?lg2 = 0" by simp
      have arch: "(case expire_time lg (t_sweep ev) of
                    Inr expire \<Rightarrow> ?out = Done \<and> archive ?d2 = sweep L expire ?A
                  | Inl e \<Rightarrow> ?out = Raised OverflowError \<and> archive ?d2 = ?A)"
        using swept_outcome[where lg = lg and now = "t_sweep ev" and L = L and zs = ?A]
        by (auto split: sum.splits)
      show ?thesis
        apply (rule exI[of _ ?out], rule exI[of _ ?lg2], rule exI[of _ ?d2])
        apply (intro conjI)
          apply (rule whole)
         apply (rule zero)
        apply (rule arch)
        done
    qed
    from same quiet due show ?thesis by blast
  qed
  show ?thesis
    unfolding i prod.case using basics rest by blast
qed

theorem init_counts_from_zero_witness:
  "line_count (fst (init py_lib cfg0 stocked_disk (moment 2024 1 1 0 0 0) (moment 2024 1 1 0 0 0))) = 0 \<and>
   (\<exists>lg2 d2 f2.
      run py_lib [(calm (moment 2024 1 1 0 0 1), thermo, 21)]
        (fst (init py_lib cfg0 stocked_disk (moment 2024 1 1 0 0 0) (moment 2024 1 1 0 0 0)))
        (snd (init py_lib cfg0 stocked_disk (moment 2024 1 1 0 0 0) (moment 2024 1 1 0 0 0)))
        = (Done, lg2, d2) \<and>
      line_count lg2 = 1 \<and> archive d2 = [] \<and>
      files d2 ''sensor_data.csv'' = Some f2 \<and> length (rows f2) = 5) \<and>
   (\<exists>lg2 d2.
      run py_lib [(calm (moment 2024 1 1 0 0 1), thermo, 21), (calm (moment 2024 1 1 0 0 2), hygro, 40)]
        (fst (init py_lib cfg0 stocked_disk (moment 2024 1 1 0 0 0) (moment 2024 1 1 0 0 0)))
        (snd (init py_lib cfg0 stocked_disk (moment 2024 1 1 0 0 0) (moment 2024 1 1 0 0 0)))
        = (Done, lg2, d2) \<and>
      line_count lg2 = 0 \<and>
      archive d2 =
        [(''sensor_data.csv.20240101000002.zip'',
          Zip [(''sensor_data.csv'',
                [fieldnames,
                 [''2023-12-31T23:00:01'', ''T1'', ''18.0'', ''C''],
                 [''2023-12-31T23:00:02'', ''T1'', ''19.0'', ''C''],
                 [''2023-12-31T23:00:03'', ''T1'', ''20.0'', ''C''],
                 [''2024-01-01T00:00:01'', ''T1'', ''21.0'', ''C''],
                 [''2024-01-01T00:00:02'', ''H1'', ''40.0'', ''%'']])])])"
proof -
  let ?i = "init py_lib cfg0 stocked_disk (moment 2024 1 1 0 0 0) (moment 2024 1 1 0 0 0)"
  let ?f = "\<lparr>rows = [fieldnames,
                [''2023-12-31T23:00:01'', ''T1'', ''18.0'', ''C''],
                [''2023-12-31T23:00:02'', ''T1'', ''19.0'', ''C''],
                [''2023-12-31T23:00:03'', ''T1'', ''20.0'', ''C'']],
        created = moment 2023 12 31 23 0 0, mtime = moment 2023 12 31 23 0 3\<rparr>"
  let ?calls = "[(calm (moment 2024 1 1 0 0 1), thermo, 21::int)]"
  let ?ev = "calm (moment 2024 1 1 0 0 2)"
  obtain lg d' where i: "?i = (lg, d')" by (cases ?i)
  have lg: "lg = fst ?i" and d': "d' = snd ?i" using i by simp_all
  define x where "x = projr (expire_time lg (t_sweep ?ev))"
  let ?A = "put_entry (archive_name py_lib ?ev lg)
              (Zip [(current_file lg, rows ?f @ map (enc py_lib) (?calls @ [(?ev, hygro, 40)]))])
              (archive stocked_disk)"
  have cur: "current_file lg = ''sensor_data.csv''" unfolding lg by code_simp
  have a: "files stocked_disk (current_file lg) = Some ?f" unfolding lg by code_simp
  have b: "int (length ?calls) < rotate_after lg" unfolding lg by code_simp
  have c: "age_silent lg ?calls" unfolding lg by code_simp
  have e: "size_silent py_lib lg ?f ?calls" unfolding lg by code_simp
  have ar: "archive stocked_disk = []" by code_simp
  have n: "int (length ?calls) + 1 = rotate_after lg" unfolding lg by code_simp
  have g: "zip_io ?ev = ZipWritten" by code_simp
  have h: "map_of (archive stocked_disk) (archive_name py_lib ?ev lg) \<noteq> Some Folder"
    unfolding lg by code_simp
  have ex: "expire_time lg (t_sweep ?ev) = Inr x" unfolding x_def lg by code_simp
  have arch: "sweep py_lib x ?A =
        [(''sensor_data.csv.20240101000002.zip'',
          Zip [(''sensor_data.csv'',
                [fieldnames,
                 [''2023-12-31T23:00:01'', ''T1'', ''18.0'', ''C''],
                 [''2023-12-31T23:00:02'', ''T1'', ''19.0'', ''C''],
                 [''2023-12-31T23:00:03'', ''T1'', ''20.0'', ''C''],
                 [''2024-01-01T00:00:01'', ''T1'', ''21.0'', ''C''],
                 [''2024-01-01T00:00:02'', ''H1'', ''40.0'', ''%'']])])]"
    unfolding x_def lg by code_simp
  note th = init_counts_from_zero[where L = py_lib and cfg = cfg0 and d = stocked_disk
      and now = "moment 2024 1 1 0 0 0" and t = "moment 2024 1 1 0 0 0", unfolded i prod.case]
  have z: "line_count lg = 0" by (rule th[THEN conjunct1])
  have r: "\<forall>f. files stocked_disk (current_file lg) = Some f \<longrightarrow>
           d' = stocked_disk \<and>
           (\<forall>calls. int (length calls) < rotate_after lg \<and> age_silent lg calls \<and>
                    size_silent py_lib lg f calls \<longrightarrow>
              (\<exists>lg2 d2 f2. run py_lib calls lg d' = (Done, lg2, d2) \<and>
                 line_count lg2 = int (length calls) \<and> archive d2 = archive stocked_disk \<and>
                 files d2 (current_file lg) = Some f2 \<and>
                 rows f2 = rows f @ map (enc py_lib) calls)) \<and>
           (\<forall>calls ev s v.
              int (length calls) + 1 = rotate_after lg \<and> age_silent lg calls \<and>
              size_silent py_lib lg f calls \<and> zip_io ev = ZipWritten \<and>
              map_of (archive stocked_disk) (archive_name py_lib ev lg) \<noteq> Some Folder \<longrightarrow>
              (\<exists>out lg2 d2. run py_lib (calls @ [(ev, s, v)]) lg d' = (out, lg2, d2) \<and>
                 line_count lg2 = 0 \<and>
                 (case expire_time lg (t_sweep ev) of
                    Inr expire \<Rightarrow>
                      out = Done \<and>
                      archive d2 =
                        sweep py_lib expire
                          (put_entry (archive_name py_lib ev lg)
                             (Zip [(current_file lg, rows f @ map (enc py_lib) (calls @ [(ev, s, v)]))])
                             (archive stocked_disk))
                  | Inl e \<Rightarrow>
                      out = Raised OverflowError \<and>
                      archive d2 =
                        put_entry (archive_name py_lib ev lg)
                          (Zip [(current_file lg, rows f @ map (enc py_lib) (calls @ [(ev, s, v)]))])
                          (archive stocked_disk))))"
    by (rule th[THEN conjunct2, THEN conjunct2, THEN conjunct2, THEN conjunct2])
  from r a have
    r1: "\<forall>calls. int (length calls) < rotate_after lg \<and> age_silent lg calls \<and>
                    size_silent py_lib lg ?f calls \<longrightarrow>
              (\<exists>lg2 d2 f2. run py_lib calls lg d' = (Done, lg2, d2) \<and>
                 line_count lg2 = int (length calls) \<and> archive d2 = archive stocked_disk \<and>
                 files d2 (current_file lg) = Some f2 \<and>
                 rows f2 = rows ?f @ map (enc py_lib) calls)"
    and r2: "\<forall>calls ev s v.
              int (length calls) + 1 = rotate_after lg \<and> age_silent lg calls \<and>
              size_silent py_lib lg ?f calls \<and> zip_io ev = ZipWritten \<and>
              map_of (archive stocked_disk) (archive_name py_lib ev lg) \<noteq> Some Folder \<longrightarrow>
              (\<exists>out lg2 d2. run py_lib (calls @ [(ev, s, v)]) lg d' = (out, lg2, d2) \<and>
                 line_count lg2 = 0 \<and>
                 (case expire_time lg (t_sweep ev) of
                    Inr expire \<Rightarrow>
                      out = Done \<and>
                      archive d2 =
                        sweep py_lib expire
                          (put_entry (archive_name py_lib ev lg)
                             (Zip [(current_file lg, rows ?f @ map (enc py_lib) (calls @ [(ev, s, v)]))])
                             (archive stocked_disk))
                  | Inl e \<Rightarrow>
                      out = Raised OverflowError \<and>
                      archive d2 =
                        put_entry (archive_name py_lib ev lg)
                          (Zip [(current_file lg, rows ?f @ map (enc py_lib) (calls @ [(ev, s, v)]))])
                          (archive stocked_disk)))"
    by blast+
  from r1 b c e obtain lg2 d2 f2 where
    "run py_lib ?calls lg d' = (Done, lg2, d2)" "line_count lg2 = int (length ?calls)"
    "archive d2 = archive stocked_disk" "files d2 (current_file lg) = Some f2"
    "rows f2 = rows ?f @ map (enc py_lib) ?calls"
    by blast
  then have first: "\<exists>lg2 d2 f2. run py_lib ?calls lg d' = (Done, lg2, d2) \<and> line_count lg2 = 1 \<and>
      archive d2 = [] \<and> files d2 ''sensor_data.csv'' = Some f2 \<and> length (rows f2) = 5"
    by (simp add: ar cur)
  from r2[rule_format, where calls = ?calls and ev = ?ev and s = hygro and v = 40] n c e g h
  obtain out lg3 d3 where
    r3: "run py_lib (?calls @ [(?ev, hygro, 40)]) lg d' = (out, lg3, d3)"
    and z3: "line_count lg3 = 0"
    and ar3: "(case expire_time lg (t_sweep ?ev) of
                 Inr expire \<Rightarrow> out = Done \<and> archive d3 = sweep py_lib expire ?A
               | Inl e \<Rightarrow> out = Raised OverflowError \<and> archive d3 = ?A)"
    by blast
  have out: "out = Done" and ad: "archive d3 = sweep py_lib x ?A"
    using ar3 unfolding ex by (simp_all only: sum.case)
  have r3': "run py_lib [(calm (moment 2024 1 1 0 0 1), thermo, 21), (?ev, hygro, 40)] lg d' =
             (Done, lg3, d3)"
    using r3 unfolding out by (simp del: run.simps)
  have second: "\<exists>lg2 d2.
      run py_lib [(calm (moment 2024 1 1 0 0 1), thermo, 21), (?ev, hygro, 40)] lg d' = (Done, lg2, d2) \<and>
      line_count lg2 = 0 \<and>
      archive d2 =
        [(''sensor_data.csv.20240101000002.zip'',
          Zip [(''sensor_data.csv'',
                [fieldnames,
                 [''2023-12-31T23:00:01'', ''T1'', ''18.0'', ''C''],
                 [''2023-12-31T23:00:02'', ''T1'', ''19.0'', ''C''],
                 [''2023-12-31T23:00:03'', ''T1'', ''20.0'', ''C''],
                 [''2024-01-01T00:00:01'', ''T1'', ''21.0'', ''C''],
                 [''2024-01-01T00:00:02'', ''H1'', ''40.0'', ''%'']])])]"
    using r3' z3 ad unfolding arch by blast
  from z first second show ?thesis unfolding lg d' by blast
qed

section \<open>No reading is lost\<close>

lemma dict_reader_snoc:
  "hd rs = h \<Longrightarrow> rs \<noteq> [] \<Longrightarrow> r \<noteq> [] \<Longrightarrow>
   dict_reader (rs @ [r]) = dict_reader rs @ [row_dict h r]"
  by (cases rs) (auto simp: dict_reader_def)

lemma put_entry_fresh: "z \<notin> fst ` set zs \<Longrightarrow> put_entry z nd zs = zs @ [(z, nd)]"
  by (induction zs) auto

lemma sweep_keeps:
  "\<forall>z \<in> fst ` set zs. \<not> too_old L lg now z \<Longrightarrow>
   sweep L (now - timedelta_days (retention lg)) zs = zs"
  by (induction zs) (auto simp: too_old_def split: option.splits)

lemma is_zip_name_archive: "is_zip_name (archive_name L ev lg)"
  by (simp add: is_zip_name_def archive_name_def)

lemma tidy_step:
  assumes t: "tidy lg d"
    and u: "update L ev s v lg d = (Done, lg', d')"
    and k: "rotates L ev s v lg d \<longrightarrow> keeps_archives L ev lg d"
  shows "tidy lg' d' \<and>
         mset (written_dicts lg' d') =
           mset (written_dicts lg d) + {#row_dict fieldnames (encode L (t_rec ev) s v)#}"
proof -
  from t obtain f where op: "fp_open lg" and fs: "files d = [current_file lg \<mapsto> f]"
    and ne: "rows f \<noteq> []" and header: "hd (rows f) = fieldnames"
    and zs: "\<forall>(z, nd) \<in> set (zip_entries d). nd \<noteq> Junk \<and> nd \<noteq> Folder"
    by (auto simp: tidy_def)
  let ?row = "encode L (t_rec ev) s v"
  let ?f1 = "f\<lparr>rows := rows f @ [?row], mtime := t_write ev\<rparr>"
  let ?d1 = "write_row d (current_file lg) ?row (t_write ev)"
  let ?lg1 = "lg\<lparr>line_count := line_count lg + 1\<rparr>"
  have cur: "files d (current_file lg) = Some f" by (simp add: fs)
  have f1: "files ?d1 = [current_file lg \<mapsto> ?f1]" and a1: "archive ?d1 = archive d"
    by (simp_all add: write_row_def cur fs)
  have rowne: "?row \<noteq> []" by (simp add: encode_def)
  have act1: "dict_reader (rows f @ [?row]) = dict_reader (rows f) @ [row_dict fieldnames ?row]"
    by (rule dict_reader_snoc[OF header ne rowne])
  obtain r where nr: "needs_rotation L ?lg1 ?d1 (t_age ev) = Inr r"
  proof (cases "needs_rotation L ?lg1 ?d1 (t_age ev)")
    case (Inl e)
    with u op have False by (simp add: update_def Let_def)
    then show ?thesis ..
  next
    case (Inr r)
    then show ?thesis by (rule that)
  qed
  show ?thesis
  proof (cases r)
    case False
    with nr have res: "lg' = ?lg1" "d' = ?d1"
      using u op by (simp_all add: update_def Let_def)
    have "tidy lg' d'"
      unfolding res using op ne header zs
      by (auto simp: tidy_def f1 zip_entries_def a1)
    moreover have "written_dicts lg' d' = dict_reader (rows f) @ [row_dict fieldnames ?row]
                     @ concat (map (\<lambda>(z, nd). node_dicts nd) (zip_entries d))"
      unfolding res
      by (simp add: written_dicts_def f1 act1 zip_entries_def a1)
    ultimately show ?thesis by (simp add: written_dicts_def cur)
  next
    case True
    with nr have rot: "rotates L ev s v lg d" by (simp add: rotates_def)
    with k have keep: "keeps_archives L ev lg d" by simp
    let ?z = "archive_name L ev lg"
    have fresh: "?z \<notin> fst ` set (archive d)" using keep by (simp add: keeps_archives_def)
    have young: "\<forall>z \<in> fst ` set (archive d @ [(?z, nd)]). \<not> too_old L lg (t_sweep ev) z" for nd
      using keep by (auto simp: keeps_archives_def)
    have nofolder: "map_of (archive d) ?z \<noteq> Some Folder"
      using fresh by (metis map_of_eq_None_iff option.distinct(1) fst_conv image_eqI
          map_of_SomeD)
    have uo: "update L ev s v lg d = rotate L ev ?lg1 ?d1"
      using nr True op by (simp add: update_def Let_def)
    have zio: "zip_io ev = ZipWritten"
    proof (rule ccontr)
      assume "zip_io ev \<noteq> ZipWritten"
      then have "fst (rotate L ev ?lg1 ?d1) = Raised OSError"
        by (cases "zip_io ev") (auto simp: rotate_def Let_def)
      with u uo show False by simp
    qed
    let ?new = "strftime L (filename_pattern lg) (t_name ev)"
    let ?arch = "archive d @ [(?z, Zip [(current_file lg, rows f @ [?row])])]"
    have pe: "put_entry ?z (Zip [(current_file lg, rows f @ [?row])]) (archive d) = ?arch"
      by (rule put_entry_fresh[OF fresh])
    have sw: "sweep L (t_sweep ev - timedelta_days (retention lg)) ?arch = ?arch"
      by (rule sweep_keeps[OF young])
    note ur = update_rotating[OF op cur rot zio nofolder, unfolded pe]
    have returned: "fst (swept L lg (t_sweep ev) ?arch) = Done"
      using ur u by simp
    have sd: "swept L lg (t_sweep ev) ?arch = (Done, ?arch)"
    proof (cases "expire_time lg (t_sweep ev)")
      case (Inl e)
      with returned show ?thesis by (simp add: swept_def)
    next
      case (Inr expire)
      from expire_time_value[OF this] sw Inr show ?thesis by (simp add: swept_def)
    qed
    have ro: "reopened d (current_file lg) ?new (t_create ev) =
                [?new \<mapsto> \<lparr>rows = [fieldnames], created = t_create ev, mtime = t_create ev\<rparr>]"
      by (simp add: reopened_def fs)
    from ur u
    have res: "lg' = lg\<lparr>line_count := 0, current_file := ?new, fp_open := True\<rparr>"
      "files d' = [?new \<mapsto> \<lparr>rows = [fieldnames], created = t_create ev, mtime = t_create ev\<rparr>]"
      "archive d' = ?arch"
      by (auto simp: sd ro)
    have ze: "zip_entries d' = zip_entries d @ [(?z, Zip [(current_file lg, rows f @ [?row])])]"
      using is_zip_name_archive[of L ev lg] by (simp add: zip_entries_def res(3))
    have "tidy lg' d'"
      using zs by (auto simp: tidy_def res(1,2) ze)
    moreover have "written_dicts lg' d' =
        concat (map (\<lambda>(z, nd). node_dicts nd) (zip_entries d)) @
        dict_reader (rows f) @ [row_dict fieldnames ?row]"
      using act1
      by (simp add: written_dicts_def res(1,2) ze node_dicts_def member_dicts_def
          dict_reader_def)
    ultimately show ?thesis by (simp add: written_dicts_def cur)
  qed
qed


lemma tidy_run:
  assumes "tidy lg d" and "run L calls lg d = (Done, lg', d')" and "lossless L calls lg d"
  shows "tidy lg' d' \<and>
         mset (written_dicts lg' d') =
           mset (written_dicts lg d) + mset (map (\<lambda>c. row_dict fieldnames (enc L c)) calls)"
  using assms
proof (induction calls arbitrary: lg d)
  case Nil
  then show ?case by simp
next
  case (Cons c calls)
  obtain ev s v where c: "c = (ev, s, v)" by (cases c)
  obtain out lg1 d1 where u: "update L ev s v lg d = (out, lg1, d1)"
    by (cases "update L ev s v lg d")
  have out: "out = Done"
    using Cons.prems(2) u by (cases out) (simp_all add: c)
  have r: "run L calls lg1 d1 = (Done, lg', d')"
    using Cons.prems(2) u out by (simp add: c)
  have k: "rotates L ev s v lg d \<longrightarrow> keeps_archives L ev lg d"
    and l: "lossless L calls lg1 d1"
    using Cons.prems(3) u out by (simp_all add: c)
  from tidy_step[OF Cons.prems(1) u[unfolded out] k]
  have t1: "tidy lg1 d1"
    and m1: "mset (written_dicts lg1 d1) =
               mset (written_dicts lg d) + {#row_dict fieldnames (encode L (t_rec ev) s v)#}"
    by simp_all
  from Cons.IH[OF t1 r l] m1 show ?case
    by (simp add: c enc_def)
qed

lemma tidy_init:
  assumes "files d0 = Map.empty" and "archive d0 = []" and "init L cfg d0 now t = (lg, d)"
  shows "tidy lg d \<and> written_dicts lg d = []"
  using assms
  by (auto simp: init_def open_file_def Let_def tidy_def zip_entries_def written_dicts_def
      dict_reader_def)

text \<open>Text mode changes a carriage return only: a plain active file is read as written.\<close>

lemma universal_newlines_plain: "plain s \<Longrightarrow> universal_newlines s = s"
  by (induction s rule: universal_newlines.induct) (auto simp: plain_def)

lemma text_mode_plain: "list_all (list_all plain) rs \<Longrightarrow> text_mode rs = rs"
  by (simp add: text_mode_def list_all_iff universal_newlines_plain map_idI)

lemma stored_written: "active_plain lg d \<Longrightarrow> stored_dicts lg d = written_dicts lg d"
  by (auto simp: stored_dicts_def written_dicts_def active_dicts_def active_plain_def
      text_mode_plain split: option.splits)

text \<open>
  What the logger itself adds to the round trip of a row: the writer and the reader agree
  on the names and the order of the fields. A row decodes to the reading it was written
  for whenever the library reads back the timestamp and the value it printed.
\<close>

lemma decode_encode:
  assumes "fromisoformat L (isoformat L (t_rec ev)) = Some (t_rec ev)"
    and "float_of L (str_value L v) = Some v"
  shows "decode L (row_dict fieldnames (enc L (ev, s, v))) = Inr (reading (ev, s, v))"
  using assms
  by (simp add: decode_def parse_timestamp_def parse_value_def make_entry_def getitem_def
      fieldnames_def enc_def encode_def reading_def map_add_def)

lemma decode_reading_matches:
  "decode L row = Inr (reading c) \<Longrightarrow> start \<le> t_rec (fst c) \<Longrightarrow> t_rec (fst c) \<le> end \<Longrightarrow>
   matches start end None (projr (decode L row))"
  by (cases c) (simp add: matches_def reading_def)

text \<open>
  C1, as the code has it. A logger is made in a directory without log files and archives,
  and readings are appended, none of the calls raising. When no rotation loses an archive
  (the name of each new archive is not taken yet, and the sweep after each rotation finds
  no entry older than the retention), every row written is in the active file or in
  exactly one archive. \<^verbatim>\<open>read_logs\<close> reads the archives as they were written and the
  active file in text mode, which turns a carriage return into a line feed. So when no
  field of a row that is still in the active file holds a carriage return, and the library
  reads back the timestamps and the values it printed, \<^verbatim>\<open>read_logs\<close> without a sensor,
  over a range that holds all the timestamps, returns exactly the readings appended, each
  as often as it was appended.
\<close>

theorem no_loss_across_rotation:
  assumes empty: "files d0 = Map.empty" "archive d0 = []"
    and made: "init L cfg d0 now t = (lg0, d1)"
    and ran: "run L calls lg0 d1 = (Done, lg, d)"
    and safe: "lossless L calls lg0 d1"
    and legible: "active_plain lg d"
    and printed: "\<forall>(ev, s, v) \<in> set calls.
                    fromisoformat L (isoformat L (t_rec ev)) = Some (t_rec ev) \<and>
                    float_of L (str_value L v) = Some v"
    and range: "\<forall>c \<in> set calls. start \<le> t_rec (fst c) \<and> t_rec (fst c) \<le> end"
  shows "mset (written_dicts lg d) = mset (map (\<lambda>c. row_dict fieldnames (enc L c)) calls) \<and>
         (\<exists>es. read_logs L lg d quiet start end None = Inr es \<and>
               mset es = mset (map reading calls))"
proof -
  let ?rows = "map (\<lambda>c. row_dict fieldnames (enc L c)) calls"
  have round_trip: "\<forall>c \<in> set calls. decode L (row_dict fieldnames (enc L c)) = Inr (reading c)"
  proof
    fix c assume c: "c \<in> set calls"
    obtain ev s v where e: "c = (ev, s, v)" by (cases c)
    from printed c show "decode L (row_dict fieldnames (enc L c)) = Inr (reading c)"
      unfolding e by (intro decode_encode) auto
  qed
  from tidy_init[OF empty made] have t0: "tidy lg0 d1" and s0: "written_dicts lg0 d1 = []"
    by simp_all
  from tidy_run[OF t0 ran safe] s0 have t: "tidy lg d"
    and w: "mset (written_dicts lg d) = mset ?rows"
    by simp_all
  have m: "mset (stored_dicts lg d) = mset ?rows"
    using w stored_written[OF legible] by simp
  have zips: "\<forall>(z, nd) \<in> set (zip_entries d). nd \<noteq> Junk \<and> nd \<noteq> Folder"
    using t by (simp add: tidy_def)
  have mem: "set (stored_dicts lg d) = set ?rows"
    using m by (rule mset_eq_setD)
  have dec: "decode L row = Inr (reading c) \<and> start \<le> t_rec (fst c) \<and> t_rec (fst c) \<le> end"
    if "c \<in> set calls" and "row = row_dict fieldnames (enc L c)" for row c
    using that round_trip range by blast
  have ok: "\<forall>row \<in> set (stored_dicts lg d). \<not> isl (decode L row)"
    unfolding mem using dec by auto
  have all_match: "\<forall>row \<in> set ?rows. matches start end None (projr (decode L row))"
    using dec decode_reading_matches by fastforce
  have kept: "filter (matches start end None) (map (\<lambda>row. projr (decode L row)) ?rows) =
             map (\<lambda>row. projr (decode L row)) ?rows"
    using all_match by (simp add: filter_id_conv)
  have undone: "map (\<lambda>row. projr (decode L row)) ?rows = map reading calls"
    using round_trip by (simp add: comp_def)
  have "mset (chosen L start end None (stored_dicts lg d)) =
        filter_mset (matches start end None)
          (image_mset (\<lambda>row. projr (decode L row)) (mset (stored_dicts lg d)))"
    by (simp add: chosen_def)
  also have "\<dots> = filter_mset (matches start end None)
          (image_mset (\<lambda>row. projr (decode L row)) (mset ?rows))"
    by (simp only: m)
  also have "\<dots> = mset (filter (matches start end None) (map (\<lambda>row. projr (decode L row)) ?rows))"
    by (simp only: mset_filter mset_map)
  also have "\<dots> = mset (map reading calls)"
    by (simp only: kept) (simp only: undone)
  finally have ms: "mset (chosen L start end None (stored_dicts lg d)) = mset (map reading calls)" .
  have "\<exists>es. read_logs L lg d quiet start end None = Inr es \<and> mset es = mset (map reading calls)"
    using read_logs_chosen[OF zips ok, where start = start and ?end = "end" and sensor = None] ms
    by simp
  with w show ?thesis by (rule conjI)
qed

text \<open>
  The claim C1 as it is written fails in three ways. With a retention of one day, the
  sweep of the rotation on the third of January removes the archive of the first, and of
  the two readings appended \<^verbatim>\<open>read_logs\<close> returns one. With a rotation after every row,
  two appends within one second write the archive of the same name, the second over the
  first, and of the two readings \<^verbatim>\<open>read_logs\<close> returns one. A reading whose sensor id
  holds a carriage return comes back from the active file with a line feed in its place.
\<close>

theorem no_loss_across_rotation_counterexample:
  "(fst two_days = Done \<and>
    map fst (archive (snd (snd two_days))) = [''sensor_data.csv.20240103120000.zip''] \<and>
    read_logs py_lib (fst (snd two_days)) (snd (snd two_days)) quiet
        (moment 2024 1 1 0 0 0) (moment 2024 1 4 0 0 0) None =
      Inr [\<lparr>e_timestamp = moment 2024 1 3 12 0 0, e_sensor_id = Some ''H1'', e_value = 40,
            e_unit = Some ''%''\<rparr>]) \<and>
   (fst same_second = Done \<and>
    map fst (archive (snd (snd same_second))) = [''sensor_data.csv.20240101120000.zip''] \<and>
    read_logs py_lib (fst (snd same_second)) (snd (snd same_second)) quiet
        (moment 2024 1 1 0 0 0) (moment 2024 1 2 0 0 0) None =
      Inr [\<lparr>e_timestamp = moment 2024 1 1 12 0 0 + 500000, e_sensor_id = Some ''H1'',
            e_value = 40, e_unit = Some ''%''\<rparr>]) \<and>
   (fst cr_active = Done \<and>
    map reading [cr_call] =
      [\<lparr>e_timestamp = moment 2024 1 1 0 0 1,
        e_sensor_id = Some [CHR ''a'', CHR 0x0D, CHR ''b''], e_value = 21,
        e_unit = Some ''C''\<rparr>] \<and>
    read_logs py_lib (fst (snd cr_active)) (snd (snd cr_active)) quiet
        (moment 2024 1 1 0 0 0) (moment 2024 1 2 0 0 0) None =
      Inr [\<lparr>e_timestamp = moment 2024 1 1 0 0 1,
            e_sensor_id = Some [CHR ''a'', CHR 0x0A, CHR ''b''], e_value = 21,
            e_unit = Some ''C''\<rparr>])"
  by code_simp

theorem no_loss_across_rotation_witness:
  "mset (written_dicts (fst after_three) (snd after_three)) =
     mset (map (\<lambda>c. row_dict fieldnames (enc py_lib c)) three_calls) \<and>
   (\<exists>es. read_logs py_lib (fst after_three) (snd after_three) quiet
            (moment 2024 1 1 0 0 0) (moment 2024 1 2 0 0 0) None = Inr es \<and>
         mset es = mset (map reading three_calls))"
proof -
  obtain lg0 d1 where i: "init py_lib cfg0 empty_disk (moment 2024 1 1 0 0 0) (moment 2024 1 1 0 0 0) = (lg0, d1)"
    by (cases "init py_lib cfg0 empty_disk (moment 2024 1 1 0 0 0) (moment 2024 1 1 0 0 0)")
  have lg0: "lg0 = fst fresh" and d1: "d1 = snd fresh" using i by (simp_all add: fresh_def)
  obtain lg d where r: "run py_lib three_calls lg0 d1 = (Done, lg, d)"
  proof -
    have "fst (run py_lib three_calls (fst fresh) (snd fresh)) = Done" by code_simp
    then show ?thesis using that unfolding lg0 d1
      by (cases "run py_lib three_calls (fst fresh) (snd fresh)") auto
  qed
  have lg: "lg = fst after_three" and d: "d = snd after_three"
    using r by (simp_all add: after_three_def lg0 d1)
  have e1: "files empty_disk = Map.empty" and e2: "archive empty_disk = []"
    by (simp_all add: empty_disk_def)
  have safe: "lossless py_lib three_calls lg0 d1" unfolding lg0 d1 by code_simp
  have legible: "active_plain lg d" unfolding lg d by code_simp
  have rt: "\<forall>(ev, s, v) \<in> set three_calls.
              fromisoformat py_lib (isoformat py_lib (t_rec ev)) = Some (t_rec ev) \<and>
              float_of py_lib (str_value py_lib v) = Some v"
    by code_simp
  have rg: "\<forall>c \<in> set three_calls. moment 2024 1 1 0 0 0 \<le> t_rec (fst c) \<and> t_rec (fst c) \<le> moment 2024 1 2 0 0 0"
    by code_simp
  from no_loss_across_rotation[OF e1 e2 i r safe legible rt rg] show ?thesis
    unfolding lg d .
qed

section \<open>The round trip of a row\<close>

text \<open>
  C3. A row as \<^verbatim>\<open>update\<close> writes it decodes to the reading it was written for when the
  library reads back the timestamp and the value it printed (lemma \<open>decode_encode\<close>), and
  so it is read from an archive. From the active file it is not: \<^verbatim>\<open>_open_file\<close> opens the
  file with \<^verbatim>\<open>newline=''\<close> and \<^verbatim>\<open>read_logs\<close> opens it without, so that the reader gets a
  line feed for every carriage return. A reading of a sensor whose id is \<open>a\<close>, carriage
  return, \<open>b\<close> is appended to a new logger: the row holds the id as it is, the row alone
  decodes to the reading, and \<^verbatim>\<open>read_logs\<close> returns the id with a line feed. After one
  more append the row is in an archive, and \<^verbatim>\<open>read_logs\<close> returns the reading as it was
  appended.
\<close>

theorem round_trip_carriage_return:
  "fst cr_active = Done \<and>
   map_option rows (files (snd (snd cr_active)) (current_file (fst (snd cr_active)))) =
     Some [fieldnames, [''2024-01-01T00:00:01'', [CHR ''a'', CHR 0x0D, CHR ''b''], ''21.0'', ''C'']] \<and>
   reading cr_call =
     \<lparr>e_timestamp = moment 2024 1 1 0 0 1, e_sensor_id = Some [CHR ''a'', CHR 0x0D, CHR ''b''],
      e_value = 21, e_unit = Some ''C''\<rparr> \<and>
   decode py_lib (row_dict fieldnames (enc py_lib cr_call)) = Inr (reading cr_call) \<and>
   read_logs py_lib (fst (snd cr_active)) (snd (snd cr_active)) quiet
       (moment 2024 1 1 0 0 0) (moment 2024 1 2 0 0 0) None =
     Inr [\<lparr>e_timestamp = moment 2024 1 1 0 0 1,
           e_sensor_id = Some [CHR ''a'', CHR 0x0A, CHR ''b''], e_value = 21,
           e_unit = Some ''C''\<rparr>] \<and>
   fst cr_sealed = Done \<and>
   read_logs py_lib (fst (snd cr_sealed)) (snd (snd cr_sealed)) quiet
       (moment 2024 1 1 0 0 0) (moment 2024 1 2 0 0 0) None =
     Inr [\<lparr>e_timestamp = moment 2024 1 1 0 0 1,
           e_sensor_id = Some [CHR ''a'', CHR 0x0D, CHR ''b''], e_value = 21,
           e_unit = Some ''C''\<rparr>,
          \<lparr>e_timestamp = moment 2024 1 1 0 0 2, e_sensor_id = Some ''H1'', e_value = 40,
           e_unit = Some ''%''\<rparr>]"
  by code_simp

end
